theory Spec2Isabelle
  imports Main
begin

section \<open>The libevent binding of guile-fibers (extensions/libevent.c)\<close>

text \<open>
  The file binds six Scheme primitives to libevent. The embedding keeps the C structs as
  records, pointers as addresses into typed stores, and every \<open>SCM_MISC_ERROR\<close>,
  \<open>SCM_SYSERROR\<close> and \<open>scm_wrong_type_arg_msg\<close> as an error value. A primitive returns
  its outcome together with the state it leaves behind, because a Scheme error is a
  non-local exit that does not undo the writes made before it.

  Calls into libevent, libguile and the operating system are the environment: what they
  return is an argument of the primitive that makes the call, and what they are asked to do
  is appended to a trace.

  The C integers are integers here. The count \<open>rv\<close> stays between zero and the capacity
  and a timeout is an \<open>int64_t\<close>, so no arithmetic of the file overflows. The one
  conversion that can lose a value, of the \<open>size_t\<close> capacity of a bytevector to the
  \<open>int\<close> field \<open>maxevents\<close>, is written out.
\<close>

subsection \<open>Data\<close>

type_synonym addr = nat

definition NULL :: addr where
  "NULL = 0"

text \<open>\<open>struct event_data { int fd; short event; }\<close>\<close>

record event_data =
  fd :: int
  event :: int

text \<open>\<open>struct wait_data { int rv; struct event_data *events; int maxevents; }\<close>\<close>

record wait_data =
  rv :: int
  events :: addr
  maxevents :: int

text \<open>\<open>struct loop_data { struct event_base *base; int64_t timeout; }\<close>\<close>

record loop_data =
  base :: addr
  timeout :: int

text \<open>\<open>struct libevt_data { struct event_base *base; }\<close>\<close>

record libevt_data =
  libevt_base :: addr

text \<open>
  \<open>sizeof (struct event_data)\<close>: an int and a short, padded to the alignment of int.
\<close>

definition sizeof_event_data :: nat where
  "sizeof_event_data = 8"

text \<open>
  A bytevector of \<open>L\<close> bytes, seen as the code sees it through a
  \<open>struct event_data *\<close>: the \<open>L div sizeof_event_data\<close> whole records it has room
  for, and the bytes left over at its end.
\<close>

record bytevector =
  bv_records :: "event_data list"
  bv_tail :: nat

definition SCM_BYTEVECTOR_LENGTH :: "bytevector \<Rightarrow> nat" where
  "SCM_BYTEVECTOR_LENGTH b =
     sizeof_event_data * length (bv_records b) + bv_tail b mod sizeof_event_data"

text \<open>The callbacks an event can carry; this file registers \<open>cb_func\<close> only.\<close>

datatype callback = Cb_func | Cb_other nat

text \<open>
  A \<open>struct event\<close> of libevent, as \<open>event_new\<close> fills it, with whether it is
  pending (added and not deleted).
\<close>

record libevent_event =
  ev_base :: addr
  ev_fd :: int
  ev_events :: int
  ev_callback :: callback
  ev_arg :: addr
  ev_pending :: bool

datatype errno = EWOULDBLOCK | EAGAIN | EINTR | EBADF | EPIPE | Errno_other nat

record timeval =
  tv_sec :: int
  tv_usec :: int

text \<open>What the binding asks of libguile, libevent and the operating system.\<close>

datatype action =
    Prepare_to_wait_on_fd int
  | Leave_guile
  | Enter_guile
  | Wait_finished
  | Event_base_loopexit addr timeval
  | Event_base_loop_once addr
  | Sys_write int nat
  | Sys_read int nat int

text \<open>
  \<open>Misc_error\<close> carries \<open>FUNC_NAME\<close>, the message and its arguments;
  \<open>Undefined_behaviour\<close> stands for a read or write through a pointer that is not valid
  for it, which C leaves undefined.
\<close>

datatype error =
    Misc_error string string "int list"
  | System_error string errno
  | Wrong_type_arg string nat string
  | Undefined_behaviour

record state =
  bytevectors :: "addr \<Rightarrow> bytevector option"
  wait_datas :: "addr \<Rightarrow> wait_data option"
  libevts :: "addr \<Rightarrow> libevt_data option"
  event_bases :: "addr set"
  libevent_events :: "addr \<Rightarrow> libevent_event option"
  brk :: addr
  readable :: "int \<Rightarrow> nat"
  scm_c_time_units_per_second :: int
  time_units_per_microsec :: int
  microsec_per_time_units :: int
  trace :: "action list"

definition emit :: "action \<Rightarrow> state \<Rightarrow> state" where
  "emit a s = s\<lparr>trace := trace s @ [a]\<rparr>"

subsection \<open>C arithmetic\<close>

text \<open>\<open>/\<close> and \<open>%\<close> of C truncate towards zero.\<close>

definition c_div :: "int \<Rightarrow> int \<Rightarrow> int" where
  "c_div a b = (if (a < 0) = (b < 0) then \<bar>a\<bar> div \<bar>b\<bar> else - (\<bar>a\<bar> div \<bar>b\<bar>))"

definition c_mod :: "int \<Rightarrow> int \<Rightarrow> int" where
  "c_mod a b = a - b * c_div a b"

text \<open>
  A \<open>size_t\<close> stored in an \<open>int\<close>: the low 32 bits, read as two's complement (what
  the compilers define for a value that does not fit).
\<close>

definition size_t_to_int :: "nat \<Rightarrow> int" where
  "size_t_to_int n = (int n + 2 ^ 31) mod 2 ^ 32 - 2 ^ 31"

subsection \<open>The environment: libevent, libguile, the operating system\<close>

text \<open>Flags of \<open>event2/event.h\<close>.\<close>

definition EV_READ :: int where "EV_READ = 2"
definition EV_PERSIST :: int where "EV_PERSIST = 16"

text \<open>Fresh memory from an allocator; it is never \<open>NULL\<close>.\<close>

definition alloc :: "state \<Rightarrow> addr \<times> state" where
  "alloc s = (Suc (brk s), s\<lparr>brk := Suc (brk s)\<rparr>)"

definition scm_gc_malloc :: "state \<Rightarrow> addr \<times> state" where
  "scm_gc_malloc s = alloc s"

text \<open>\<open>event_base_new ()\<close>: a new base, or \<open>NULL\<close> when libevent cannot make one.\<close>

definition event_base_new :: "bool \<Rightarrow> state \<Rightarrow> addr \<times> state" where
  "event_base_new ok s =
     (if ok then
        (let (p, s1) = alloc s in (p, s1\<lparr>event_bases := insert p (event_bases s1)\<rparr>))
      else (NULL, s))"

text \<open>
  \<open>event_new (base, fd, events, cb, arg)\<close>: a new event that is not yet pending, or
  \<open>NULL\<close>.
\<close>

definition event_new ::
  "bool \<Rightarrow> addr \<Rightarrow> int \<Rightarrow> int \<Rightarrow> callback \<Rightarrow> addr \<Rightarrow> state \<Rightarrow> addr \<times> state" where
  "event_new ok b c_fd c_ev cb arg s =
     (if ok then
        (let (p, s1) = alloc s in
         (p, s1\<lparr>libevent_events := (libevent_events s1)(p \<mapsto>
               \<lparr>ev_base = b, ev_fd = c_fd, ev_events = c_ev, ev_callback = cb,
                ev_arg = arg, ev_pending = False\<rparr>)\<rparr>))
      else (NULL, s))"

definition set_pending :: "addr \<Rightarrow> bool \<Rightarrow> state \<Rightarrow> state" where
  "set_pending p v s =
     (case libevent_events s p of
        None \<Rightarrow> s
      | Some e \<Rightarrow> s\<lparr>libevent_events := (libevent_events s)(p \<mapsto> e\<lparr>ev_pending := v\<rparr>)\<rparr>)"

text \<open>\<open>event_add (ev, NULL)\<close> makes the event pending and returns 0, or returns -1.\<close>

definition event_add :: "bool \<Rightarrow> addr \<Rightarrow> state \<Rightarrow> int \<times> state" where
  "event_add ok p s = (if ok then (0, set_pending p True s) else (-1, s))"

text \<open>\<open>event_del (ev)\<close> makes the event non-pending and returns 0, or returns -1.\<close>

definition event_del :: "bool \<Rightarrow> addr \<Rightarrow> state \<Rightarrow> int \<times> state" where
  "event_del ok p s = (if ok then (0, set_pending p False s) else (-1, s))"

text \<open>An event stays pending after it fires exactly when it carries \<open>EV_PERSIST\<close>.\<close>

definition ev_persistent :: "libevent_event \<Rightarrow> bool" where
  "ev_persistent e = ((ev_events e div EV_PERSIST) mod 2 = 1)"

text \<open>
  \<open>read (fd, buf, count)\<close> on a descriptor with \<open>n\<close> bytes pending, which does not
  block: it fails when the environment says so (the head of the flags) or when nothing is
  pending, and otherwise takes as many of the pending bytes as fit.
\<close>

definition sys_read :: "bool list \<Rightarrow> int \<Rightarrow> nat \<Rightarrow> state \<Rightarrow> int \<times> bool list \<times> state" where
  "sys_read errs c_fd count s =
     (let n = readable s c_fd;
          r = (if (errs \<noteq> [] \<and> hd errs) \<or> n = 0 then - 1 else int (min n count));
          s1 = (if r < 0 then s else s\<lparr>readable := (readable s)(c_fd := n - min n count)\<rparr>)
      in (r, tl errs, emit (Sys_read c_fd count r) s1))"

text \<open>
  \<open>write (fd, buf, count)\<close>: the environment gives what the call returns and the
  \<open>errno\<close> it leaves.
\<close>

definition sys_write :: "int \<times> errno \<Rightarrow> int \<Rightarrow> nat \<Rightarrow> state \<Rightarrow> int \<times> errno \<times> state" where
  "sys_write res c_fd count s = (fst res, snd res, emit (Sys_write c_fd count) s)"

text \<open>
  \<open>scm_c_prepare_to_wait_on_fd (fd)\<close> marks the calling thread as about to block on
  \<open>fd\<close>; a non-zero result says that an interrupt is already pending.
\<close>

definition scm_c_prepare_to_wait_on_fd :: "int \<Rightarrow> int \<Rightarrow> state \<Rightarrow> int \<times> state" where
  "scm_c_prepare_to_wait_on_fd res c_fd s = (res, emit (Prepare_to_wait_on_fd c_fd) s)"

definition scm_c_wait_finished :: "state \<Rightarrow> state" where
  "scm_c_wait_finished s = emit Wait_finished s"

text \<open>
  \<open>scm_without_guile (f, p)\<close> leaves guile mode, runs \<open>f\<close> and enters guile mode
  again when \<open>f\<close> returns.
\<close>

definition scm_without_guile ::
  "(state \<Rightarrow> (error + unit) \<times> state) \<Rightarrow> state \<Rightarrow> (error + unit) \<times> state" where
  "scm_without_guile f s =
     (case f (emit Leave_guile s) of
        (Inl e, s1) \<Rightarrow> (Inl e, s1)
      | (Inr u, s1) \<Rightarrow> (Inr u, emit Enter_guile s1))"

definition event_base_loopexit :: "bool \<Rightarrow> addr \<Rightarrow> timeval \<Rightarrow> state \<Rightarrow> int \<times> state" where
  "event_base_loopexit ok b tv s =
     ((if ok then 0 else - 1), emit (Event_base_loopexit b tv) s)"

subsection \<open>Memory seen through \<open>struct event_data *\<close>\<close>

text \<open>
  \<open>memcpy (p + i, &r, sizeof r)\<close>, \<open>p[i]\<close> and
  \<open>memmove (p + dst, p + src, n * sizeof r)\<close> on the bytevector at \<open>p\<close>. \<open>None\<close> is an
  access outside it.
\<close>

definition memcpy_event_data :: "addr \<Rightarrow> int \<Rightarrow> event_data \<Rightarrow> state \<Rightarrow> state option" where
  "memcpy_event_data p i r s =
     (case bytevectors s p of
        None \<Rightarrow> None
      | Some b \<Rightarrow>
          if 0 \<le> i \<and> nat i < length (bv_records b) then
            Some (s\<lparr>bytevectors := (bytevectors s)(p \<mapsto>
                    b\<lparr>bv_records := (bv_records b)[nat i := r]\<rparr>)\<rparr>)
          else None)"

definition read_event_data :: "addr \<Rightarrow> int \<Rightarrow> state \<Rightarrow> event_data option" where
  "read_event_data p i s =
     (case bytevectors s p of
        None \<Rightarrow> None
      | Some b \<Rightarrow>
          if 0 \<le> i \<and> nat i < length (bv_records b) then Some (bv_records b ! nat i)
          else None)"

definition memmove_records :: "event_data list \<Rightarrow> nat \<Rightarrow> nat \<Rightarrow> nat \<Rightarrow> event_data list" where
  "memmove_records xs dst src n = take dst xs @ take n (drop src xs) @ drop (dst + n) xs"

definition memmove_event_data :: "addr \<Rightarrow> int \<Rightarrow> int \<Rightarrow> int \<Rightarrow> state \<Rightarrow> state option" where
  "memmove_event_data p dst src n s =
     (case bytevectors s p of
        None \<Rightarrow> None
      | Some b \<Rightarrow>
          if 0 \<le> dst \<and> 0 \<le> src \<and> 0 \<le> n
             \<and> nat (dst + n) \<le> length (bv_records b)
             \<and> nat (src + n) \<le> length (bv_records b) then
            Some (s\<lparr>bytevectors := (bytevectors s)(p \<mapsto>
                    b\<lparr>bv_records := memmove_records (bv_records b) (nat dst) (nat src) (nat n)\<rparr>)\<rparr>)
          else None)"

subsection \<open>The collector callback\<close>

definition cb_func :: "int \<Rightarrow> int \<Rightarrow> addr \<Rightarrow> state \<Rightarrow> (error + unit) \<times> state" where
  "cb_func c_fd what arg s =
     (case wait_datas s arg of
        None \<Rightarrow> (Inl Undefined_behaviour, s)
      | Some data \<Rightarrow>
          if rv data \<ge> maxevents data then
            (Inl (Misc_error ''primitive-event-loop'' ''max events fired on fd(~A)'' [c_fd]), s)
          else
            (case memcpy_event_data (events data) (rv data) \<lparr>fd = c_fd, event = what\<rparr> s of
               None \<Rightarrow> (Inl Undefined_behaviour, s)
             | Some s1 \<Rightarrow>
                 (Inr (), s1\<lparr>wait_datas := (wait_datas s1)(arg \<mapsto> data\<lparr>rv := rv data + 1\<rparr>)\<rparr>)))"

text \<open>
  One pass of \<open>event_base_loop (base, EVLOOP_ONCE)\<close> over the events the multiplexer
  reports, in its order: each is an event and the conditions that fired. An event that
  is pending on this base has its callback run; unless it is persistent it stops being
  pending first. An error raised by a callback ends the pass.
\<close>

fun run_callback :: "callback \<Rightarrow> int \<Rightarrow> int \<Rightarrow> addr \<Rightarrow> state \<Rightarrow> (error + unit) \<times> state" where
  "run_callback Cb_func c_fd what arg s = cb_func c_fd what arg s"
| "run_callback (Cb_other k) c_fd what arg s = (Inr (), s)"

fun dispatch :: "(addr \<times> int) list \<Rightarrow> addr \<Rightarrow> state \<Rightarrow> (error + unit) \<times> state" where
  "dispatch [] b s = (Inr (), s)"
| "dispatch ((p, what) # fs) b s =
     (case libevent_events s p of
        None \<Rightarrow> dispatch fs b s
      | Some e \<Rightarrow>
          if ev_pending e \<and> ev_base e = b then
            (case run_callback (ev_callback e) (ev_fd e) what (ev_arg e)
                    (if ev_persistent e then s else set_pending p False s) of
               (Inl err, s1) \<Rightarrow> (Inl err, s1)
             | (Inr u, s1) \<Rightarrow> dispatch fs b s1)
          else dispatch fs b s)"

definition event_base_loop ::
  "(addr \<times> int) list \<Rightarrow> bool \<Rightarrow> addr \<Rightarrow> state \<Rightarrow> (error + int) \<times> state" where
  "event_base_loop fired ok b s =
     (case dispatch fired b (emit (Event_base_loop_once b) s) of
        (Inl err, s1) \<Rightarrow> (Inl err, s1)
      | (Inr u, s1) \<Rightarrow> (Inr (if ok then 0 else - 1), s1))"

subsection \<open>The primitives\<close>

text \<open>
  An argument that the C code converts with \<open>scm_to_int\<close>, \<open>scm_to_short\<close> or
  \<open>scm_to_int64\<close> is given here as the C value; the list \<open>lst\<close> that
  \<open>primitive-create-event-base\<close> returns is the pair of its two pointers.
\<close>

definition scm_primitive_event_wake :: "int \<times> errno \<Rightarrow> int \<Rightarrow> state \<Rightarrow> (error + unit) \<times> state" where
  "scm_primitive_event_wake res c_fd s =
     (case sys_write res c_fd 1 s of
        (r, en, s1) \<Rightarrow>
          if r \<le> 0 \<and> en \<noteq> EWOULDBLOCK \<and> en \<noteq> EAGAIN then
            (Inl (System_error ''primitive-event-wake'' en), s1)
          else (Inr (), s1))"

definition scm_primitive_create_event_base ::
  "bool \<Rightarrow> addr \<Rightarrow> state \<Rightarrow> (error + addr \<times> addr) \<times> state" where
  "scm_primitive_create_event_base base_ok eventsv s =
     (case event_base_new base_ok s of
        (b, s1) \<Rightarrow>
          if b = NULL then
            (Inl (Misc_error ''primitive-create-event-base'' ''couldn't allocate event_base'' []),
             s1)
          else
            (case scm_gc_malloc s1 of
               (libevt, s2) \<Rightarrow>
                 (case scm_gc_malloc
                         (s2\<lparr>libevts := (libevts s2)(libevt \<mapsto> \<lparr>libevt_base = b\<rparr>)\<rparr>) of
                    (data, s3) \<Rightarrow>
                      (case bytevectors s3 eventsv of
                         None \<Rightarrow> (Inl Undefined_behaviour, s3)
                       | Some bv \<Rightarrow>
                           (Inr (libevt, data),
                            s3\<lparr>wait_datas := (wait_datas s3)(data \<mapsto>
                                 \<lparr>rv = 0, events = eventsv,
                                  maxevents =
                                    size_t_to_int
                                      (SCM_BYTEVECTOR_LENGTH bv div sizeof_event_data)\<rparr>)\<rparr>)))))"

definition scm_primitive_add_event ::
  "bool \<Rightarrow> bool \<Rightarrow> addr \<times> addr \<Rightarrow> int \<Rightarrow> int \<Rightarrow> state \<Rightarrow> (error + addr) \<times> state" where
  "scm_primitive_add_event new_ok add_ok lst c_fd c_ev s =
     (case libevts s (fst lst) of
        None \<Rightarrow> (Inl Undefined_behaviour, s)
      | Some libevt \<Rightarrow>
          (case event_new new_ok (libevt_base libevt) c_fd c_ev Cb_func (snd lst) s of
             (ev, s1) \<Rightarrow>
               if ev = NULL then
                 (Inl (Misc_error ''primitive-add-event'' ''couldn't allocate event'' []), s1)
               else
                 (case event_add add_ok ev s1 of
                    (ret, s2) \<Rightarrow>
                      if ret = - 1 then
                        (Inl (Misc_error ''primitive-add-event'' ''failed to add event'' []), s2)
                      else (Inr ev, s2))))"

definition scm_primitive_remove_event ::
  "bool \<Rightarrow> addr \<times> addr \<Rightarrow> addr \<Rightarrow> state \<Rightarrow> (error + unit) \<times> state" where
  "scm_primitive_remove_event del_ok lst ev s =
     (case event_del del_ok ev s of
        (ret, s1) \<Rightarrow>
          if ret = - 1 then
            (Inl (Misc_error ''primitive-remove-event'' ''failed to delete event'' []), s1)
          else (Inr (), s1))"

definition scm_primitive_resize :: "addr \<times> addr \<Rightarrow> addr \<Rightarrow> state \<Rightarrow> (error + unit) \<times> state" where
  "scm_primitive_resize lst eventsv s =
     (case wait_datas s (snd lst) of
        None \<Rightarrow> (Inl Undefined_behaviour, s)
      | Some data \<Rightarrow>
          (case bytevectors s eventsv of
             None \<Rightarrow> (Inl Undefined_behaviour, s)
           | Some bv \<Rightarrow>
               (Inr (),
                s\<lparr>wait_datas := (wait_datas s)(snd lst \<mapsto>
                     data\<lparr>events := eventsv,
                          maxevents :=
                            size_t_to_int
                              (SCM_BYTEVECTOR_LENGTH bv div sizeof_event_data)\<rparr>)\<rparr>)))"

text \<open>
  What the environment answers during one \<open>primitive-event-loop\<close>: the result of
  \<open>scm_c_prepare_to_wait_on_fd\<close>, whether \<open>event_base_loopexit\<close> and
  \<open>event_base_loop\<close> succeed, the events that fire, and which reads of the drain fail.
\<close>

record loop_env =
  prepare_ret :: int
  loopexit_ok :: bool
  fired :: "(addr \<times> int) list"
  loop_ok :: bool
  read_errs :: "bool list"

definition run_event_loop :: "loop_env \<Rightarrow> loop_data \<Rightarrow> state \<Rightarrow> (error + unit) \<times> state" where
  "run_event_loop env data s =
     (case (if timeout data \<ge> 0 then
              (case event_base_loopexit (loopexit_ok env) (base data)
                      \<lparr>tv_sec = c_div (timeout data) (scm_c_time_units_per_second s),
                       tv_usec =
                         (if time_units_per_microsec s > 0 then
                            c_div (c_mod (timeout data) (scm_c_time_units_per_second s))
                                  (time_units_per_microsec s)
                          else
                            c_mod (timeout data) (scm_c_time_units_per_second s)
                              * microsec_per_time_units s)\<rparr> s of
                 (ret, s1) \<Rightarrow>
                   if ret = - 1 then
                     (Inl (Misc_error ''primitive-event-loop'' ''event loop exit failed'' []), s1)
                   else (Inr (), s1))
            else (Inr (), s)) of
        (Inl err, s1) \<Rightarrow> (Inl err, s1)
      | (Inr u, s1) \<Rightarrow>
          (case event_base_loop (fired env) (loop_ok env) (base data) s1 of
             (Inl err, s2) \<Rightarrow> (Inl err, s2)
           | (Inr ret, s2) \<Rightarrow>
               if ret = - 1 then
                 (Inl (Misc_error ''primitive-event-loop'' ''event loop failed'' []), s2)
               else (Inr (), s2)))"

text \<open>
  \<open>while (read (c_wokefd, zeroes, sizeof zeroes) == sizeof zeroes) { }\<close>
\<close>

function drain :: "bool list \<Rightarrow> int \<Rightarrow> state \<Rightarrow> state" where
  "drain errs c_wokefd s =
     (case sys_read errs c_wokefd 32 s of
        (r, errs1, s1) \<Rightarrow> if r = 32 then drain errs1 c_wokefd s1 else s1)"
  by pat_completeness auto
termination
  by (relation "measure (\<lambda>(errs, c_wokefd, s). readable s c_wokefd)")
     (auto simp: sys_read_def emit_def Let_def split: if_splits)

text \<open>
  The \<open>for (int i = 0; i < data->rv; i++)\<close> loop of \<open>primitive-event-loop\<close>, from
  index \<open>i\<close> on.
\<close>

function event_loop_scan ::
  "bool list \<Rightarrow> addr \<Rightarrow> int \<Rightarrow> int \<Rightarrow> state \<Rightarrow> (error + unit) \<times> state" where
  "event_loop_scan errs data_p c_wokefd i s =
     (case wait_datas s data_p of
        None \<Rightarrow> (Inl Undefined_behaviour, s)
      | Some data \<Rightarrow>
          if i < rv data then
            (case read_event_data (events data) i s of
               None \<Rightarrow> (Inl Undefined_behaviour, s)
             | Some r \<Rightarrow>
                 if fd r = c_wokefd then
                   (case memmove_event_data (events data) i (i + 1) (rv data - 1 - i)
                           (s\<lparr>wait_datas := (wait_datas s)(data_p \<mapsto>
                                 data\<lparr>rv := rv data - 1\<rparr>)\<rparr>) of
                      None \<Rightarrow> (Inl Undefined_behaviour, s)
                    | Some s1 \<Rightarrow> (Inr (), drain errs c_wokefd s1))
                 else event_loop_scan errs data_p c_wokefd (i + 1) s)
          else (Inr (), s))"
  by pat_completeness auto
termination
  by (relation "measure (\<lambda>(errs, data_p, c_wokefd, i, s).
                  nat (rv (the (wait_datas s data_p)) - i))") auto

text \<open>
  The \<open>else\<close> branch of \<open>primitive-event-loop\<close> up to \<open>scm_c_wait_finished\<close>: the
  wait, inside \<open>scm_without_guile\<close> unless the timeout is zero.
\<close>

definition event_loop_wait ::
  "loop_env \<Rightarrow> addr \<times> addr \<Rightarrow> int \<Rightarrow> state \<Rightarrow> (error + unit) \<times> state" where
  "event_loop_wait env lst c_timeout s =
     (case libevts s (fst lst) of
        None \<Rightarrow> (Inl Undefined_behaviour, s)
      | Some libevt \<Rightarrow>
          (case (if c_timeout \<noteq> 0 then
                   scm_without_guile
                     (run_event_loop env \<lparr>base = libevt_base libevt, timeout = c_timeout\<rparr>) s
                 else
                   run_event_loop env \<lparr>base = libevt_base libevt, timeout = c_timeout\<rparr> s) of
             (Inl err, s1) \<Rightarrow> (Inl err, s1)
           | (Inr u, s1) \<Rightarrow>
               (Inr (), if c_timeout \<noteq> 0 then scm_c_wait_finished s1 else s1)))"

text \<open>
  The end of \<open>primitive-event-loop\<close>: \<open>result = data->rv; data->rv = 0;\<close>
\<close>

definition event_loop_result :: "addr \<Rightarrow> state \<Rightarrow> (error + int) \<times> state" where
  "event_loop_result data_p s =
     (case wait_datas s data_p of
        None \<Rightarrow> (Inl Undefined_behaviour, s)
      | Some data \<Rightarrow>
          (Inr (rv data), s\<lparr>wait_datas := (wait_datas s)(data_p \<mapsto> data\<lparr>rv := 0\<rparr>)\<rparr>))"

definition scm_primitive_event_loop ::
  "loop_env \<Rightarrow> addr \<times> addr \<Rightarrow> int \<Rightarrow> int \<Rightarrow> int \<Rightarrow> state \<Rightarrow> (error + int) \<times> state" where
  "scm_primitive_event_loop env lst c_wakefd c_wokefd c_timeout s =
     (if snd lst = NULL then
        (Inl (Wrong_type_arg ''event-loop'' 1 ''event wait_data is null''), s)
      else
        (case (if c_timeout \<noteq> 0 then scm_c_prepare_to_wait_on_fd (prepare_ret env) c_wakefd s
               else (0, s)) of
           (interrupted, s1) \<Rightarrow>
             (case (if interrupted \<noteq> 0 then
                      (case wait_datas s1 (snd lst) of
                         None \<Rightarrow> (Inl Undefined_behaviour, s1)
                       | Some data \<Rightarrow>
                           (Inr (),
                            s1\<lparr>wait_datas := (wait_datas s1)(snd lst \<mapsto> data\<lparr>rv := 0\<rparr>)\<rparr>))
                    else
                      (case event_loop_wait env lst c_timeout s1 of
                         (Inl err, s2) \<Rightarrow> (Inl err, s2)
                       | (Inr u, s2) \<Rightarrow>
                           event_loop_scan (read_errs env) (snd lst) c_wokefd 0 s2)) of
                (Inl err, s3) \<Rightarrow> (Inl err, s3)
              | (Inr u, s3) \<Rightarrow> event_loop_result (snd lst) s3)))"

definition init_fibers_libevt :: "state \<Rightarrow> state" where
  "init_fibers_libevt s =
     s\<lparr>time_units_per_microsec := c_div (scm_c_time_units_per_second s) 1000000,
       microsec_per_time_units := c_div 1000000 (scm_c_time_units_per_second s)\<rparr>"

subsection \<open>Derived notions used by the statements\<close>

text \<open>
  The index of the first record from \<open>i\<close> on whose descriptor is \<open>c_wokefd\<close>, or the
  length of the list when there is none.
\<close>

definition first_woke :: "event_data list \<Rightarrow> int \<Rightarrow> nat \<Rightarrow> nat" where
  "first_woke xs c_wokefd i = i + length (takeWhile (\<lambda>r. fd r \<noteq> c_wokefd) (drop i xs))"

text \<open>
  The state after \<open>data->rv--\<close> and the \<open>memmove\<close> that closes the gap at index \<open>k\<close>.
\<close>

definition compacted :: "nat \<Rightarrow> addr \<Rightarrow> wait_data \<Rightarrow> bytevector \<Rightarrow> state \<Rightarrow> state" where
  "compacted k data_p d b s =
     s\<lparr>wait_datas := (wait_datas s)(data_p \<mapsto> d\<lparr>rv := rv d - 1\<rparr>),
       bytevectors := (bytevectors s)(events d \<mapsto>
          b\<lparr>bv_records := memmove_records (bv_records b) k (Suc k) (nat (rv d) - 1 - k)\<rparr>)\<rparr>"

subsection \<open>Example states\<close>

text \<open>
  A process with nanosecond time units in which nothing is allocated yet; the same after
  \<open>init_fibers_libevt\<close> with a zeroed bytevector of \<open>cap\<close> records at address 100; and
  the latter after \<open>primitive-create-event-base\<close> on that bytevector, which puts the
  base at 1, the \<open>libevt_data\<close> at 2 and the \<open>wait_data\<close> at 3.
\<close>

definition blank_state :: state where
  "blank_state =
     \<lparr>bytevectors = Map.empty, wait_datas = Map.empty, libevts = Map.empty,
      event_bases = {}, libevent_events = Map.empty, brk = 0, readable = (\<lambda>d. 0),
      scm_c_time_units_per_second = 1000000000, time_units_per_microsec = 0,
      microsec_per_time_units = 0, trace = []\<rparr>"

definition boot_state :: "nat \<Rightarrow> state" where
  "boot_state cap =
     init_fibers_libevt
       (blank_state\<lparr>bytevectors :=
          [100 \<mapsto> \<lparr>bv_records = replicate cap \<lparr>fd = 0, event = 0\<rparr>, bv_tail = 0\<rparr>]\<rparr>)"

definition collector_state :: "nat \<Rightarrow> state" where
  "collector_state cap = snd (scm_primitive_create_event_base True 100 (boot_state cap))"

text \<open>
  The collector with room for four records after three persistent read watches, on the
  descriptors 17, 15 and 19 (the events at 4, 5 and 6), with 40 bytes pending on
  descriptor 15; and an iteration in which all three fire.
\<close>

definition watch_state :: state where
  "watch_state =
     (let s1 = snd (scm_primitive_add_event True True (2, 3) 17 18 (collector_state 4));
          s2 = snd (scm_primitive_add_event True True (2, 3) 15 18 s1);
          s3 = snd (scm_primitive_add_event True True (2, 3) 19 18 s2)
      in s3\<lparr>readable := (readable s3)(15 := 40)\<rparr>)"

definition watch_env :: loop_env where
  "watch_env =
     \<lparr>prepare_ret = 0, loopexit_ok = True, fired = [(4, 2), (5, 2), (6, 2)], loop_ok = True,
      read_errs = []\<rparr>"

text \<open>
  The collector with room for four records after two persistent read watches on the same
  descriptor 15 (the events at 4 and 5); and an iteration in which both fire.
\<close>

definition twice_state :: state where
  "twice_state =
     (let s1 = snd (scm_primitive_add_event True True (2, 3) 15 18 (collector_state 4));
          s2 = snd (scm_primitive_add_event True True (2, 3) 15 18 s1)
      in s2\<lparr>readable := (readable s2)(15 := 1)\<rparr>)"

definition twice_env :: loop_env where
  "twice_env =
     \<lparr>prepare_ret = 0, loopexit_ok = True, fired = [(4, 2), (5, 2)], loop_ok = True,
      read_errs = []\<rparr>"

subsection \<open>Reading the trace\<close>

text \<open>
  The \<open>struct timeval\<close> that \<open>run_event_loop\<close> hands to \<open>event_base_loopexit\<close> for a
  timeout that is not negative.
\<close>

definition loop_timeval :: "state \<Rightarrow> int \<Rightarrow> timeval" where
  "loop_timeval s t =
     \<lparr>tv_sec = c_div t (scm_c_time_units_per_second s),
      tv_usec =
        (if time_units_per_microsec s > 0 then
           c_div (c_mod t (scm_c_time_units_per_second s)) (time_units_per_microsec s)
         else c_mod t (scm_c_time_units_per_second s) * microsec_per_time_units s)\<rparr>"

text \<open>The calls that \<open>run_event_loop\<close> makes into libevent.\<close>

definition wait_actions :: "loop_env \<Rightarrow> addr \<Rightarrow> int \<Rightarrow> state \<Rightarrow> action list" where
  "wait_actions env b t s =
     (if t \<ge> 0 then [Event_base_loopexit b (loop_timeval s t)] else [])
     @ (if t \<ge> 0 \<and> \<not> loopexit_ok env then [] else [Event_base_loop_once b])"

text \<open>The actions appended to the trace between two states.\<close>

definition new_actions :: "state \<Rightarrow> state \<Rightarrow> action list" where
  "new_actions s s' = drop (length (trace s)) (trace s')"

text \<open>
  The calls into the scheduler of the host runtime; with them, the wait itself; and the
  installation of a deadline.
\<close>

fun is_guile_call :: "action \<Rightarrow> bool" where
  "is_guile_call (Prepare_to_wait_on_fd c_fd) = True"
| "is_guile_call Leave_guile = True"
| "is_guile_call Enter_guile = True"
| "is_guile_call Wait_finished = True"
| "is_guile_call a = False"

fun is_wait_step :: "action \<Rightarrow> bool" where
  "is_wait_step (Event_base_loop_once b) = True"
| "is_wait_step a = is_guile_call a"

fun is_loopexit :: "action \<Rightarrow> bool" where
  "is_loopexit (Event_base_loopexit b tv) = True"
| "is_loopexit a = False"

text \<open>
  The collector with room for four records after one read watch on descriptor 15 whose
  mask is \<open>EV_READ\<close> alone (the event at 4); and an iteration in which it fires.
\<close>

definition oneshot_state :: state where
  "oneshot_state = snd (scm_primitive_add_event True True (2, 3) 15 EV_READ (collector_state 4))"

definition oneshot_env :: loop_env where
  "oneshot_env =
     \<lparr>prepare_ret = 0, loopexit_ok = True, fired = [(4, 2)], loop_ok = True, read_errs = []\<rparr>"

text \<open>No \<open>wait_data\<close> points to the buffer at \<open>p\<close>.\<close>

definition buffer_unreferenced :: "addr \<Rightarrow> state \<Rightarrow> bool" where
  "buffer_unreferenced p s = (\<forall>q d. wait_datas s q = Some d \<longrightarrow> events d \<noteq> p)"

text \<open>
  The collector with room for one record after two persistent read watches, on the
  descriptors 17 and 19 (the events at 4 and 5), with a second zeroed bytevector of three
  records at address 200; the same after \<open>primitive-resize\<close> to that bytevector; and an
  iteration in which both watches fire.
\<close>

definition small_state :: state where
  "small_state =
     (let s1 = snd (scm_primitive_add_event True True (2, 3) 17 18 (collector_state 1));
          s2 = snd (scm_primitive_add_event True True (2, 3) 19 18 s1)
      in s2\<lparr>bytevectors := (bytevectors s2)(200 \<mapsto>
              \<lparr>bv_records = [\<lparr>fd = 0, event = 0\<rparr>, \<lparr>fd = 0, event = 0\<rparr>, \<lparr>fd = 0, event = 0\<rparr>],
               bv_tail = 0\<rparr>)\<rparr>)"

definition resized_state :: state where
  "resized_state = snd (scm_primitive_resize (2, 3) 200 small_state)"

definition both_env :: loop_env where
  "both_env =
     \<lparr>prepare_ret = 0, loopexit_ok = True, fired = [(4, 2), (5, 2)], loop_ok = True,
      read_errs = []\<rparr>"

text \<open>
  The number of times that a pass of the loop over the fired events runs \<open>cb_func\<close> on
  the \<open>wait_data\<close> at \<open>dp\<close>, read off the registered events.
\<close>

fun deposits ::
  "(addr \<times> int) list \<Rightarrow> addr \<Rightarrow> addr \<Rightarrow> (addr \<Rightarrow> libevent_event option) \<Rightarrow> nat" where
  "deposits [] b dp evs = 0"
| "deposits ((p, what) # fs) b dp evs =
     (case evs p of
        None \<Rightarrow> deposits fs b dp evs
      | Some e \<Rightarrow>
          if ev_pending e \<and> ev_base e = b then
            (if ev_callback e = Cb_func \<and> ev_arg e = dp then 1 else 0)
            + deposits fs b dp
                (if ev_persistent e then evs else evs(p \<mapsto> e\<lparr>ev_pending := False\<rparr>))
          else deposits fs b dp evs)"

text \<open>
  The \<open>wait_data\<close> at \<open>p\<close> has a count that is not negative and a capacity that its
  buffer has room for.
\<close>

definition within_buffer :: "state \<Rightarrow> addr \<Rightarrow> bool" where
  "within_buffer s p =
     (case wait_datas s p of
        None \<Rightarrow> False
      | Some d \<Rightarrow>
          0 \<le> rv d
          \<and> (case bytevectors s (events d) of
                None \<Rightarrow> False
              | Some b \<Rightarrow> maxevents d \<le> int (length (bv_records b))))"




section \<open>Properties\<close>

declare event_loop_scan.simps [simp del]
declare drain.simps [simp del]

lemmas collector_simps =
  collector_state_def scm_primitive_create_event_base_def boot_state_def blank_state_def
  event_base_new_def alloc_def scm_gc_malloc_def init_fibers_libevt_def NULL_def
  SCM_BYTEVECTOR_LENGTH_def sizeof_event_data_def

lemma size_t_to_int_fits: "int n < 2 ^ 31 \<Longrightarrow> size_t_to_int n = int n"
  by (simp add: size_t_to_int_def)

lemma size_t_to_int_small [simp]:
  "size_t_to_int 0 = 0" "size_t_to_int (Suc 0) = 1" "size_t_to_int 1 = 1"
  "size_t_to_int 3 = 3" "size_t_to_int 4 = 4"
  by (simp_all add: size_t_to_int_def)

lemma size_t_to_int_le: "size_t_to_int n \<le> int n"
proof -
  have "(int n + 2 ^ 31) mod 2 ^ 32 \<le> int n + 2 ^ 31"
    by (rule zmod_le_nonneg_dividend) simp
  then show ?thesis by (simp add: size_t_to_int_def)
qed

lemma collector_state_data:
  "wait_datas (collector_state cap) 3
     = Some \<lparr>rv = 0, events = 100, maxevents = size_t_to_int cap\<rparr>"
  by (simp add: collector_simps)

lemma collector_state_buffer:
  "bytevectors (collector_state cap) 100 =
     Some \<lparr>bv_records = replicate cap \<lparr>fd = 0, event = 0\<rparr>, bv_tail = 0\<rparr>"
  by (simp add: collector_simps)

subsection \<open>The collector callback stays inside the buffer\<close>

lemma cb_func_full:
  assumes "wait_datas s p = Some d"
  shows "cb_func c_fd what p s =
     (if rv d \<ge> maxevents d then
        (Inl (Misc_error ''primitive-event-loop'' ''max events fired on fd(~A)'' [c_fd]), s)
      else
        (case bytevectors s (events d) of
           None \<Rightarrow> (Inl Undefined_behaviour, s)
         | Some b \<Rightarrow>
             if 0 \<le> rv d \<and> nat (rv d) < length (bv_records b) then
               (Inr (),
                s\<lparr>bytevectors := (bytevectors s)(events d \<mapsto>
                     b\<lparr>bv_records := (bv_records b)[nat (rv d) := \<lparr>fd = c_fd, event = what\<rparr>]\<rparr>),
                  wait_datas := (wait_datas s)(p \<mapsto> d\<lparr>rv := rv d + 1\<rparr>)\<rparr>)
             else (Inl Undefined_behaviour, s)))"
  using assms by (simp add: cb_func_def memcpy_event_data_def split: option.splits)

text \<open>
  C1. Take a \<open>wait_data\<close> whose count is not negative and whose capacity is at most the
  number of records its buffer has room for (as \<open>primitive-create-event-base\<close> and
  \<open>primitive-resize\<close> set it). When the count equals the capacity, \<open>cb_func\<close> raises
  "max events fired" and leaves the state as it was, so nothing is written. When the count
  is below the capacity, the record \<open>(fd, what)\<close> is written at the index equal to the
  count, which lies inside the buffer, and the count goes up by one. In every case the
  callback makes no out-of-bounds access, the buffer keeps its length, and every slot at
  or past the capacity keeps its content.
\<close>

theorem cb_func_bounded:
  assumes "wait_datas s p = Some d"
      and "bytevectors s (events d) = Some b"
      and "0 \<le> rv d"
      and "maxevents d \<le> int (length (bv_records b))"
  shows "(rv d = maxevents d \<longrightarrow>
            cb_func c_fd what p s =
              (Inl (Misc_error ''primitive-event-loop'' ''max events fired on fd(~A)'' [c_fd]), s))
       \<and> (rv d < maxevents d \<longrightarrow>
            nat (rv d) < length (bv_records b)
            \<and> cb_func c_fd what p s =
              (Inr (),
               s\<lparr>bytevectors := (bytevectors s)(events d \<mapsto>
                    b\<lparr>bv_records := (bv_records b)[nat (rv d) := \<lparr>fd = c_fd, event = what\<rparr>]\<rparr>),
                 wait_datas := (wait_datas s)(p \<mapsto> d\<lparr>rv := rv d + 1\<rparr>)\<rparr>))
       \<and> fst (cb_func c_fd what p s) \<noteq> Inl Undefined_behaviour
       \<and> (\<forall>b'. bytevectors (snd (cb_func c_fd what p s)) (events d) = Some b' \<longrightarrow>
             length (bv_records b') = length (bv_records b)
             \<and> (\<forall>j. maxevents d \<le> int j \<longrightarrow> bv_records b' ! j = bv_records b ! j))"
  using assms by (auto simp: cb_func_full)

theorem cb_func_bounded_witness:
  "fst (cb_func 5 2 3 (collector_state 1)) = Inr ()
   \<and> bytevectors (snd (cb_func 5 2 3 (collector_state 1))) 100
       = Some \<lparr>bv_records = [\<lparr>fd = 5, event = 2\<rparr>], bv_tail = 0\<rparr>
   \<and> cb_func 5 2 3 (collector_state 0)
       = (Inl (Misc_error ''primitive-event-loop'' ''max events fired on fd(~A)'' [5]),
          collector_state 0)"
  using cb_func_bounded [of "collector_state 1" 3 "\<lparr>rv = 0, events = 100, maxevents = 1\<rparr>"
          "\<lparr>bv_records = [\<lparr>fd = 0, event = 0\<rparr>], bv_tail = 0\<rparr>" 5 2]
        cb_func_bounded [of "collector_state 0" 3 "\<lparr>rv = 0, events = 100, maxevents = 0\<rparr>"
          "\<lparr>bv_records = [], bv_tail = 0\<rparr>" 5 2]
  by (simp add: collector_state_data collector_state_buffer)

text \<open>
  The two bounds assumed of the \<open>wait_data\<close> are established by
  \<open>primitive-create-event-base\<close>, kept by \<open>primitive-resize\<close> and kept by every call of
  the callback.
\<close>

lemma create_within_buffer:
  assumes "bytevectors s eventsv = Some bv"
      and "scm_primitive_create_event_base True eventsv s = (Inr (l, dp), s')"
  shows "within_buffer s' dp"
  using assms
  by (auto simp: scm_primitive_create_event_base_def event_base_new_def alloc_def
        scm_gc_malloc_def NULL_def within_buffer_def SCM_BYTEVECTOR_LENGTH_def
        sizeof_event_data_def size_t_to_int_le)

lemma resize_within_buffer:
  assumes "within_buffer s (snd lst)" and "bytevectors s eventsv = Some bv"
  shows "within_buffer (snd (scm_primitive_resize lst eventsv s)) (snd lst)"
  using assms
  by (auto simp: scm_primitive_resize_def within_buffer_def SCM_BYTEVECTOR_LENGTH_def
        sizeof_event_data_def size_t_to_int_le split: option.splits)

lemma cb_func_within_buffer:
  assumes "within_buffer s p"
  shows "within_buffer (snd (cb_func c_fd what arg s)) p"
proof (cases "wait_datas s arg")
  case None
  then show ?thesis using assms by (simp add: cb_func_def)
next
  case (Some da)
  show ?thesis
    using assms Some
    by (auto simp: cb_func_full[OF Some] within_buffer_def split: option.splits if_splits)
qed

subsection \<open>The scan for the wake descriptor\<close>

lemma scan_char:
  assumes "wait_datas s dp = Some d" "bytevectors s (events d) = Some b"
      "0 \<le> i" "rv d \<le> int (length (bv_records b))"
  shows "event_loop_scan errs dp w i s =
     (let k = first_woke (take (nat (rv d)) (bv_records b)) w (nat i) in
      if k < nat (rv d) then (Inr (), drain errs w (compacted k dp d b s))
      else (Inr (), s))"
  using assms
proof (induction errs dp w i s rule: event_loop_scan.induct)
  case (1 errs dp w i s)
  let ?xs = "take (nat (rv d)) (bv_records b)"
  show ?case
  proof (cases "i < rv d")
    case False
    then have "drop (nat i) ?xs = []" by simp
    then show ?thesis using "1.prems" False
      by (subst event_loop_scan.simps) (simp add: first_woke_def Let_def)
  next
    case True
    with "1.prems" have rd: "read_event_data (events d) i s = Some (bv_records b ! nat i)"
      by (simp add: read_event_data_def)
    have le: "nat (rv d) \<le> length (bv_records b)" using "1.prems" by linarith
    from True 1 have il: "nat i < length ?xs" by simp
    have dr: "drop (nat i) ?xs = (bv_records b ! nat i) # drop (Suc (nat i)) ?xs"
      using il by (metis Cons_nth_drop_Suc nth_take length_take min_less_iff_conj)
    show ?thesis
    proof (cases "fd (bv_records b ! nat i) = w")
      case w: True
      have k: "first_woke ?xs w (nat i) = nat i"
        by (simp add: first_woke_def dr w)
      have mm: "memmove_event_data (events d) i (i + 1) (rv d - 1 - i)
                   (s\<lparr>wait_datas := (wait_datas s)(dp \<mapsto> d\<lparr>rv := rv d - 1\<rparr>)\<rparr>)
                = Some (compacted (nat i) dp d b s)"
        using "1.prems" True le by (simp add: memmove_event_data_def compacted_def nat_add_distrib nat_diff_distrib) 
      show ?thesis using "1.prems" True w rd k mm
        by (subst event_loop_scan.simps) (simp add: Let_def)
    next
      case nw: False
      have k: "first_woke ?xs w (nat i) = first_woke ?xs w (nat (i + 1))"
        using "1.prems" by (simp add: first_woke_def dr nw nat_add_distrib)
      have "event_loop_scan errs dp w (i + 1) s =
         (let k = first_woke ?xs w (nat (i + 1)) in
          if k < nat (rv d) then (Inr (), drain errs w (compacted k dp d b s))
          else (Inr (), s))"
        using "1.prems" True nw rd by (intro "1.IH"[of d "bv_records b ! nat i"]) auto
      then show ?thesis using "1.prems" True nw rd k
        by (subst event_loop_scan.simps) (simp add: Let_def)
    qed
  qed
qed

lemma sys_read_frame:
  "sys_read errs w n s = (r, errs1, s1) \<Longrightarrow>
     wait_datas s1 = wait_datas s \<and> bytevectors s1 = bytevectors s
     \<and> libevts s1 = libevts s \<and> libevent_events s1 = libevent_events s"
  by (auto simp: sys_read_def emit_def Let_def split: if_splits)

lemma drain_frame:
  "wait_datas (drain errs w s) = wait_datas s \<and> bytevectors (drain errs w s) = bytevectors s
   \<and> libevts (drain errs w s) = libevts s
   \<and> libevent_events (drain errs w s) = libevent_events s"
proof (induction errs w s rule: drain.induct)
  case (1 errs w s)
  obtain r errs1 s1 where sr: "sys_read errs w 32 s = (r, errs1, s1)"
    by (cases "sys_read errs w 32 s") auto
  show ?case
  proof (cases "r = 32")
    case True
    with 1 sr sys_read_frame[OF sr] show ?thesis
      by (subst (1 2 3 4) drain.simps) simp
  next
    case False
    with sr sys_read_frame[OF sr] show ?thesis
      by (subst (1 2 3 4) drain.simps) simp
  qed
qed

lemma memmove_compact_take:
  assumes "k < r" "r \<le> length xs"
  shows "take (r - 1) (memmove_records xs k (Suc k) (r - 1 - k))
           = take k (take r xs) @ drop (Suc k) (take r xs)"
proof -
  have a: "length (take k xs) = k" using assms by simp
  have b: "length (take (r - 1 - k) (drop (Suc k) xs)) = r - 1 - k" using assms by simp
  have "take (r - 1) (memmove_records xs k (Suc k) (r - 1 - k))
          = take k xs @ take (r - 1 - k) (drop (Suc k) xs)"
    using assms a b by (simp add: memmove_records_def)
  moreover have "drop (Suc k) (take r xs) = take (r - 1 - k) (drop (Suc k) xs)"
    by (simp add: drop_take)
  moreover have "take k (take r xs) = take k xs" using assms by (simp add: min_def)
  ultimately show ?thesis by simp
qed

lemma memmove_compact_length:
  assumes "k < r" "r \<le> length xs"
  shows "length (memmove_records xs k (Suc k) (r - 1 - k)) = length xs"
  using assms by (simp add: memmove_records_def)

lemma memmove_compact_nth:
  assumes "k < r" "r \<le> length xs"
  shows "memmove_records xs k (Suc k) (r - 1 - k) ! j =
           (if j < k then xs ! j else if j < r - 1 then xs ! Suc j else xs ! j)"
proof -
  have a: "length (take k xs) = k" using assms by simp
  have b: "length (take (r - 1 - k) (drop (Suc k) xs)) = r - 1 - k" using assms by simp
  show ?thesis
    using assms a b
    by (auto simp: memmove_records_def nth_append)
qed

lemma event_loop_not_interrupted:
  assumes "snd lst \<noteq> NULL" "c_timeout = 0 \<or> prepare_ret env = 0"
  shows "scm_primitive_event_loop env lst c_wakefd c_wokefd c_timeout s =
     (case event_loop_wait env lst c_timeout
             (if c_timeout \<noteq> 0 then emit (Prepare_to_wait_on_fd c_wakefd) s else s) of
        (Inl err, s2) \<Rightarrow> (Inl err, s2)
      | (Inr u, s2) \<Rightarrow>
          (case event_loop_scan (read_errs env) (snd lst) c_wokefd 0 s2 of
             (Inl err, s3) \<Rightarrow> (Inl err, s3)
           | (Inr u, s3) \<Rightarrow> event_loop_result (snd lst) s3))"
  using assms
  by (auto simp: scm_primitive_event_loop_def scm_c_prepare_to_wait_on_fd_def
           split: prod.splits sum.splits)

lemma event_loop_after_wait:
  assumes nn: "snd lst \<noteq> NULL"
      and ni: "c_timeout = 0 \<or> prepare_ret env = 0"
      and wt: "event_loop_wait env lst c_timeout
                 (if c_timeout \<noteq> 0 then emit (Prepare_to_wait_on_fd c_wakefd) s else s)
               = (Inr (), s2)"
      and wd: "wait_datas s2 (snd lst) = Some d"
      and bv: "bytevectors s2 (events d) = Some b"
      and r0: "0 \<le> rv d"
      and rl: "rv d \<le> int (length (bv_records b))"
  shows "scm_primitive_event_loop env lst c_wakefd c_wokefd c_timeout s =
     (let k = first_woke (take (nat (rv d)) (bv_records b)) c_wokefd 0 in
      if k < nat (rv d) then
        (Inr (rv d - 1),
         (drain (read_errs env) c_wokefd (compacted k (snd lst) d b s2))
           \<lparr>wait_datas := (wait_datas s2)(snd lst \<mapsto> d\<lparr>rv := 0\<rparr>)\<rparr>)
      else (Inr (rv d), s2\<lparr>wait_datas := (wait_datas s2)(snd lst \<mapsto> d\<lparr>rv := 0\<rparr>)\<rparr>))"
proof -
  have sc: "event_loop_scan (read_errs env) (snd lst) c_wokefd 0 s2 =
     (let k = first_woke (take (nat (rv d)) (bv_records b)) c_wokefd (nat 0) in
      if k < nat (rv d) then (Inr (), drain (read_errs env) c_wokefd (compacted k (snd lst) d b s2))
      else (Inr (), s2))"
    by (rule scan_char[OF wd bv _ rl]) simp
  have dw: "wait_datas (drain (read_errs env) c_wokefd (compacted k (snd lst) d b s2))
             = (wait_datas s2)(snd lst \<mapsto> d\<lparr>rv := rv d - 1\<rparr>)" for k
    using drain_frame[of "read_errs env" c_wokefd "compacted k (snd lst) d b s2"]
    by (simp add: compacted_def)
  show ?thesis
    unfolding event_loop_not_interrupted[OF nn ni] wt
    by (simp add: sc Let_def event_loop_result_def dw wd)
qed

lemma first_woke_le: "first_woke xs w 0 \<le> length xs"
  using length_takeWhile_le[of "\<lambda>r. fd r \<noteq> w" xs] by (simp add: first_woke_def)

lemma first_woke_before: "j < first_woke xs w 0 \<Longrightarrow> fd (xs ! j) \<noteq> w"
  using nth_mem[of j "takeWhile (\<lambda>r. fd r \<noteq> w) xs"] set_takeWhileD[of "xs ! j" "\<lambda>r. fd r \<noteq> w" xs]
  by (simp add: first_woke_def takeWhile_nth)

lemma first_woke_at: "first_woke xs w 0 < length xs \<Longrightarrow> fd (xs ! first_woke xs w 0) = w"
proof -
  assume a: "first_woke xs w 0 < length xs"
  then have "length (takeWhile (\<lambda>r. fd r \<noteq> w) xs) < length xs"
    by (simp add: first_woke_def)
  from nth_length_takeWhile[OF this] show ?thesis by (simp add: first_woke_def)
qed

lemma first_woke_found_iff: "first_woke xs w 0 < length xs \<longleftrightarrow> w \<in> fd ` set xs"
proof
  assume a: "first_woke xs w 0 < length xs"
  from first_woke_at[OF a] nth_mem[OF a] show "w \<in> fd ` set xs"
    by (intro image_eqI[of _ _ "xs ! first_woke xs w 0"]) simp_all
next
  assume "w \<in> fd ` set xs"
  then obtain x where x: "x \<in> set xs" "\<not> fd x \<noteq> w" by auto
  let ?P = "\<lambda>r. fd r \<noteq> w"
  have ne: "takeWhile ?P xs \<noteq> xs"
    using x by (auto simp: takeWhile_eq_all_conv)
  have "length (takeWhile ?P xs) + length (dropWhile ?P xs) = length xs"
    by (metis length_append takeWhile_dropWhile_id)
  moreover have "dropWhile ?P xs \<noteq> []"
    using ne by (metis append_Nil2 takeWhile_dropWhile_id)
  ultimately have "length (takeWhile ?P xs) < length xs"
    by (cases "dropWhile ?P xs") auto
  then show "first_woke xs w 0 < length xs"
    by (simp add: first_woke_def)
qed

subsection \<open>Evaluation of the example states\<close>

lemmas eval_simps =
  collector_simps scm_primitive_add_event_def event_new_def event_add_def set_pending_def
  event_loop_wait_def run_event_loop_def event_base_loopexit_def event_base_loop_def
  scm_without_guile_def scm_c_wait_finished_def emit_def cb_func_def memcpy_event_data_def
  ev_persistent_def EV_PERSIST_def c_div_def c_mod_def Let_def

lemma replicate_4: "replicate 4 x = [x, x, x, x]"
  by (simp add: eval_nat_numeral)

lemma list_update_2: "(a # b # c # xs)[2 := y] = a # b # y # xs"
  by (simp add: eval_nat_numeral)

lemma watch_wait_returns:
  "event_loop_wait watch_env (2, 3) t
     (if t \<noteq> 0 then emit (Prepare_to_wait_on_fd 16) watch_state else watch_state)
   = (Inr (), snd (event_loop_wait watch_env (2, 3) t
        (if t \<noteq> 0 then emit (Prepare_to_wait_on_fd 16) watch_state else watch_state)))"
proof -
  have "fst (event_loop_wait watch_env (2, 3) t
          (if t \<noteq> 0 then emit (Prepare_to_wait_on_fd 16) watch_state else watch_state))
        = Inr ()"
    by (simp add: watch_state_def watch_env_def eval_simps)
  then show ?thesis
    by (cases "event_loop_wait watch_env (2, 3) t
          (if t \<noteq> 0 then emit (Prepare_to_wait_on_fd 16) watch_state else watch_state)") simp
qed

lemma watch_wait_data:
  "wait_datas (snd (event_loop_wait watch_env (2, 3) t
          (if t \<noteq> 0 then emit (Prepare_to_wait_on_fd 16) watch_state else watch_state))) 3
     = Some \<lparr>rv = 3, events = 100, maxevents = 4\<rparr>"
  by (simp add: watch_state_def watch_env_def eval_simps)

lemma watch_wait_buffer:
  "bytevectors (snd (event_loop_wait watch_env (2, 3) t
          (if t \<noteq> 0 then emit (Prepare_to_wait_on_fd 16) watch_state else watch_state))) 100 =
     Some \<lparr>bv_records = [\<lparr>fd = 17, event = 2\<rparr>, \<lparr>fd = 15, event = 2\<rparr>,
                          \<lparr>fd = 19, event = 2\<rparr>, \<lparr>fd = 0, event = 0\<rparr>], bv_tail = 0\<rparr>"
  by (simp add: watch_state_def watch_env_def eval_simps replicate_4 list_update_2)

lemma watch_handle: "libevts watch_state 2 = Some \<lparr>libevt_base = 1\<rparr>"
  by (simp add: watch_state_def eval_simps)

subsection \<open>What the compaction changes\<close>

text \<open>
  C10. Take a run-iteration that is not interrupted before the wait and whose wait
  returns, leaving \<open>rv d\<close> collected records \<open>xs\<close> at the front of the buffer, and let
  \<open>k\<close> be the index of the first of them whose descriptor is the woke descriptor (the
  number of records when there is none). Then no record before \<open>k\<close> carries that
  descriptor, the returned count is the number collected less one when there is such a
  record and the number collected otherwise, so at most one record is removed; the
  returned records are \<open>xs\<close> without its element at \<open>k\<close>, in the same order: the slots
  before \<open>k\<close> keep their content, each later collected record has moved one slot to the
  left, and the slots past the collected records are untouched.
\<close>

theorem compaction_removes_first_only:
  assumes nn: "snd lst \<noteq> NULL"
      and ni: "c_timeout = 0 \<or> prepare_ret env = 0"
      and wt: "event_loop_wait env lst c_timeout
                 (if c_timeout \<noteq> 0 then emit (Prepare_to_wait_on_fd c_wakefd) s else s)
               = (Inr (), s2)"
      and wd: "wait_datas s2 (snd lst) = Some d"
      and bv: "bytevectors s2 (events d) = Some b"
      and r0: "0 \<le> rv d"
      and rl: "rv d \<le> int (length (bv_records b))"
      and xs: "xs = take (nat (rv d)) (bv_records b)"
      and k: "k = first_woke xs c_wokefd 0"
      and R: "R = scm_primitive_event_loop env lst c_wakefd c_wokefd c_timeout s"
  shows "k \<le> length xs \<and> (\<forall>j<k. fd (xs ! j) \<noteq> c_wokefd)
       \<and> (k < length xs \<longrightarrow> fd (xs ! k) = c_wokefd)
       \<and> fst R = Inr (if k < length xs then rv d - 1 else rv d)
       \<and> (\<exists>b'. bytevectors (snd R) (events d) = Some b'
             \<and> length (bv_records b') = length (bv_records b)
             \<and> take (length xs - (if k < length xs then 1 else 0)) (bv_records b')
                 = take k xs @ drop (Suc k) xs
             \<and> (\<forall>j<k. bv_records b' ! j = bv_records b ! j)
             \<and> (\<forall>j. k \<le> j \<and> Suc j < length xs \<longrightarrow> bv_records b' ! j = bv_records b ! Suc j)
             \<and> (\<forall>j\<ge>length xs. bv_records b' ! j = bv_records b ! j))"
proof -
  have le: "nat (rv d) \<le> length (bv_records b)" using rl by linarith
  have lx: "length xs = nat (rv d)" using xs le by simp
  note aw = event_loop_after_wait[OF nn ni wt wd bv r0 rl, of c_wokefd, folded xs k R]
  have p1: "k \<le> length xs" using first_woke_le k by simp
  have p2: "\<forall>j<k. fd (xs ! j) \<noteq> c_wokefd" using first_woke_before k by simp
  have p3: "k < length xs \<longrightarrow> fd (xs ! k) = c_wokefd" using first_woke_at k by simp
  show ?thesis
  proof (cases "k < length xs")
    case True
    then have kr: "k < nat (rv d)" using lx by simp
    let ?ys = "memmove_records (bv_records b) k (Suc k) (nat (rv d) - 1 - k)"
    have Rv: "R = (Inr (rv d - 1),
         (drain (read_errs env) c_wokefd (compacted k (snd lst) d b s2))
           \<lparr>wait_datas := (wait_datas s2)(snd lst \<mapsto> d\<lparr>rv := 0\<rparr>)\<rparr>)"
      using aw kr by (simp add: Let_def)
    have bvR: "bytevectors (snd R) (events d) = Some (b\<lparr>bv_records := ?ys\<rparr>)"
      using drain_frame[of "read_errs env" c_wokefd "compacted k (snd lst) d b s2"]
      by (simp add: Rv compacted_def)
    have q1: "fst R = Inr (if k < length xs then rv d - 1 else rv d)"
      using True Rv by simp
    have q2: "length ?ys = length (bv_records b)"
      by (rule memmove_compact_length[OF kr le])
    have "take (nat (rv d) - 1) ?ys = take k xs @ drop (Suc k) xs"
      using memmove_compact_take[OF kr le] by (simp add: xs)
    then have q3: "take (length xs - (if k < length xs then 1 else 0)) ?ys
                    = take k xs @ drop (Suc k) xs"
      using True lx by simp
    have q4: "\<forall>j<k. ?ys ! j = bv_records b ! j"
      using memmove_compact_nth[OF kr le] by simp
    have q5: "\<forall>j. k \<le> j \<and> Suc j < length xs \<longrightarrow> ?ys ! j = bv_records b ! Suc j"
      using memmove_compact_nth[OF kr le] lx by auto
    have q6: "\<forall>j\<ge>length xs. ?ys ! j = bv_records b ! j"
      using memmove_compact_nth[OF kr le] lx kr by auto
    have "\<exists>b'. bytevectors (snd R) (events d) = Some b'
             \<and> length (bv_records b') = length (bv_records b)
             \<and> take (length xs - (if k < length xs then 1 else 0)) (bv_records b')
                 = take k xs @ drop (Suc k) xs
             \<and> (\<forall>j<k. bv_records b' ! j = bv_records b ! j)
             \<and> (\<forall>j. k \<le> j \<and> Suc j < length xs \<longrightarrow> bv_records b' ! j = bv_records b ! Suc j)
             \<and> (\<forall>j\<ge>length xs. bv_records b' ! j = bv_records b ! j)"
      using bvR q2 q3 q4 q5 q6
      by (intro exI[of _ "b\<lparr>bv_records := ?ys\<rparr>"]) simp
    with p1 p2 p3 q1 show ?thesis by blast
  next
    case False
    then have kr: "\<not> k < nat (rv d)" using lx by simp
    have Rv: "R = (Inr (rv d), s2\<lparr>wait_datas := (wait_datas s2)(snd lst \<mapsto> d\<lparr>rv := 0\<rparr>)\<rparr>)"
      using aw kr by (simp add: Let_def)
    have q1: "fst R = Inr (if k < length xs then rv d - 1 else rv d)"
      using False Rv by simp
    have bvR: "bytevectors (snd R) (events d) = Some b"
      using bv by (simp add: Rv)
    have keq: "k = length xs" using False p1 by simp
    have "take (length xs) (bv_records b) = xs" unfolding lx using xs by simp
    then have q3: "take (length xs - (if k < length xs then 1 else 0)) (bv_records b)
                 = take k xs @ drop (Suc k) xs"
      using keq by simp
    have q5: "\<forall>j. k \<le> j \<and> Suc j < length xs \<longrightarrow> bv_records b ! j = bv_records b ! Suc j"
      using False by simp
    have "\<exists>b'. bytevectors (snd R) (events d) = Some b'
             \<and> length (bv_records b') = length (bv_records b)
             \<and> take (length xs - (if k < length xs then 1 else 0)) (bv_records b')
                 = take k xs @ drop (Suc k) xs
             \<and> (\<forall>j<k. bv_records b' ! j = bv_records b ! j)
             \<and> (\<forall>j. k \<le> j \<and> Suc j < length xs \<longrightarrow> bv_records b' ! j = bv_records b ! Suc j)
             \<and> (\<forall>j\<ge>length xs. bv_records b' ! j = bv_records b ! j)"
      using bvR q3 q5 by (intro exI[of _ b]) simp
    with p1 p2 p3 q1 show ?thesis by blast
  qed
qed


theorem compaction_removes_first_only_witness:
  "fst (scm_primitive_event_loop watch_env (2, 3) 16 15 0 watch_state) = Inr 2
   \<and> take 2 (bv_records (the (bytevectors
          (snd (scm_primitive_event_loop watch_env (2, 3) 16 15 0 watch_state)) 100)))
       = [\<lparr>fd = 17, event = 2\<rparr>, \<lparr>fd = 19, event = 2\<rparr>]"
  using compaction_removes_first_only [where lst = "(2, 3)" and c_timeout = 0
          and env = watch_env and c_wakefd = 16 and c_wokefd = 15 and s = watch_state
          and ?s2.0 = "snd (event_loop_wait watch_env (2, 3) 0
                              (if (0::int) \<noteq> 0 then emit (Prepare_to_wait_on_fd 16) watch_state
                               else watch_state))"
          and d = "\<lparr>rv = 3, events = 100, maxevents = 4\<rparr>"
          and b = "\<lparr>bv_records = [\<lparr>fd = 17, event = 2\<rparr>, \<lparr>fd = 15, event = 2\<rparr>,
                          \<lparr>fd = 19, event = 2\<rparr>, \<lparr>fd = 0, event = 0\<rparr>], bv_tail = 0\<rparr>"
          and xs = "[\<lparr>fd = 17, event = 2\<rparr>, \<lparr>fd = 15, event = 2\<rparr>, \<lparr>fd = 19, event = 2\<rparr>]"
          and k = 1
          and R = "scm_primitive_event_loop watch_env (2, 3) 16 15 0 watch_state"]
        watch_wait_returns [of 0] watch_wait_data [of 0] watch_wait_buffer [of 0]
  by (auto simp: NULL_def first_woke_def eval_nat_numeral)

subsection \<open>The wake record and the returned count\<close>

lemma twice_wait_returns:
  "event_loop_wait twice_env (2, 3) 0 twice_state
     = (Inr (), snd (event_loop_wait twice_env (2, 3) 0 twice_state))"
proof -
  have "fst (event_loop_wait twice_env (2, 3) 0 twice_state) = Inr ()"
    by (simp add: twice_state_def twice_env_def eval_simps)
  then show ?thesis
    by (cases "event_loop_wait twice_env (2, 3) 0 twice_state") simp
qed

lemma twice_wait_data:
  "wait_datas (snd (event_loop_wait twice_env (2, 3) 0 twice_state)) 3
     = Some \<lparr>rv = 2, events = 100, maxevents = 4\<rparr>"
  by (simp add: twice_state_def twice_env_def eval_simps)

lemma twice_wait_buffer:
  "bytevectors (snd (event_loop_wait twice_env (2, 3) 0 twice_state)) 100 =
     Some \<lparr>bv_records = [\<lparr>fd = 15, event = 2\<rparr>, \<lparr>fd = 15, event = 2\<rparr>,
                          \<lparr>fd = 0, event = 0\<rparr>, \<lparr>fd = 0, event = 0\<rparr>], bv_tail = 0\<rparr>"
  by (simp add: twice_state_def twice_env_def eval_simps replicate_4 list_update_2)

lemma twice_result:
  "scm_primitive_event_loop twice_env (2, 3) 16 15 0 twice_state =
     (Inr 1,
      (drain [] 15 (compacted 0 3 \<lparr>rv = 2, events = 100, maxevents = 4\<rparr>
         \<lparr>bv_records = [\<lparr>fd = 15, event = 2\<rparr>, \<lparr>fd = 15, event = 2\<rparr>,
                          \<lparr>fd = 0, event = 0\<rparr>, \<lparr>fd = 0, event = 0\<rparr>], bv_tail = 0\<rparr>
         (snd (event_loop_wait twice_env (2, 3) 0 twice_state))))
       \<lparr>wait_datas := (wait_datas (snd (event_loop_wait twice_env (2, 3) 0 twice_state)))
           (3 \<mapsto> \<lparr>rv = 0, events = 100, maxevents = 4\<rparr>)\<rparr>)"
  using event_loop_after_wait [where lst = "(2, 3)" and c_timeout = 0
          and env = twice_env and c_wakefd = 16 and c_wokefd = 15 and s = twice_state
          and ?s2.0 = "snd (event_loop_wait twice_env (2, 3) 0 twice_state)"
          and d = "\<lparr>rv = 2, events = 100, maxevents = 4\<rparr>"
          and b = "\<lparr>bv_records = [\<lparr>fd = 15, event = 2\<rparr>, \<lparr>fd = 15, event = 2\<rparr>,
                          \<lparr>fd = 0, event = 0\<rparr>, \<lparr>fd = 0, event = 0\<rparr>], bv_tail = 0\<rparr>"]
        twice_wait_returns twice_wait_data twice_wait_buffer
  by (simp add: NULL_def first_woke_def twice_env_def)

lemma remove_first_woke_none:
  assumes "length (filter (\<lambda>r. fd r = w) xs) \<le> 1"
  shows "w \<notin> fd ` set (take (first_woke xs w 0) xs @ drop (Suc (first_woke xs w 0)) xs)"
proof (cases "first_woke xs w 0 < length xs")
  case False
  then have "w \<notin> fd ` set xs" by (simp add: first_woke_found_iff)
  moreover have "first_woke xs w 0 = length xs" using False first_woke_le[of xs w] by simp
  ultimately show ?thesis by simp
next
  case True
  let ?k = "first_woke xs w 0"
  have split: "xs = take ?k xs @ xs ! ?k # drop (Suc ?k) xs"
    using True by (simp add: id_take_nth_drop)
  have at: "fd (xs ! ?k) = w" by (rule first_woke_at[OF True])
  have "length (filter (\<lambda>r. fd r = w) xs) =
          length (filter (\<lambda>r. fd r = w) (take ?k xs)) + 1
          + length (filter (\<lambda>r. fd r = w) (drop (Suc ?k) xs))"
    using arg_cong[OF split, of "\<lambda>l. length (filter (\<lambda>r. fd r = w) l)"] at by simp
  with assms have z: "filter (\<lambda>r. fd r = w) (take ?k xs) = []"
      "filter (\<lambda>r. fd r = w) (drop (Suc ?k) xs) = []"
    by simp_all
  have "\<forall>x\<in>set (take ?k xs). fd x \<noteq> w" using z(1) by (simp add: filter_empty_conv)
  moreover have "\<forall>x\<in>set (drop (Suc ?k) xs). fd x \<noteq> w"
    using z(2) by (simp add: filter_empty_conv)
  ultimately show ?thesis by auto
qed

text \<open>
  C2, as the code has it. Take a run-iteration that is not interrupted before the wait and
  whose wait returns with the collected records \<open>xs\<close>. When one of them carries the woke
  descriptor, the first such record (index \<open>k\<close>) is removed by moving the later ones one
  slot to the left, and the returned count is one less than the number collected;
  otherwise the count is the number collected. When at most one collected record carries
  the woke descriptor, no returned record carries it.
\<close>

theorem wake_record_removed:
  assumes nn: "snd lst \<noteq> NULL"
      and ni: "c_timeout = 0 \<or> prepare_ret env = 0"
      and wt: "event_loop_wait env lst c_timeout
                 (if c_timeout \<noteq> 0 then emit (Prepare_to_wait_on_fd c_wakefd) s else s)
               = (Inr (), s2)"
      and wd: "wait_datas s2 (snd lst) = Some d"
      and bv: "bytevectors s2 (events d) = Some b"
      and r0: "0 \<le> rv d"
      and rl: "rv d \<le> int (length (bv_records b))"
      and xs: "xs = take (nat (rv d)) (bv_records b)"
      and k: "k = first_woke xs c_wokefd 0"
      and R: "R = scm_primitive_event_loop env lst c_wakefd c_wokefd c_timeout s"
  shows "fst R = Inr (int (length xs) - (if c_wokefd \<in> fd ` set xs then 1 else 0))
       \<and> (\<exists>n b'. fst R = Inr (int n) \<and> bytevectors (snd R) (events d) = Some b'
             \<and> take n (bv_records b') = take k xs @ drop (Suc k) xs)
       \<and> (length (filter (\<lambda>r. fd r = c_wokefd) xs) \<le> 1 \<longrightarrow>
             c_wokefd \<notin> fd ` set (take k xs @ drop (Suc k) xs))"
proof -
  have le: "nat (rv d) \<le> length (bv_records b)" using rl by linarith
  have lx: "length xs = nat (rv d)" using xs le by simp
  have p1: "k \<le> length xs" using first_woke_le k by simp
  have found: "k < length xs \<longleftrightarrow> c_wokefd \<in> fd ` set xs"
    using first_woke_found_iff k by simp
  note aw = event_loop_after_wait[OF nn ni wt wd bv r0 rl, of c_wokefd, folded xs k R]
  have c3: "length (filter (\<lambda>r. fd r = c_wokefd) xs) \<le> 1 \<longrightarrow>
             c_wokefd \<notin> fd ` set (take k xs @ drop (Suc k) xs)"
    using remove_first_woke_none[of c_wokefd xs] k by simp
  show ?thesis
  proof (cases "k < length xs")
    case True
    then have kr: "k < nat (rv d)" using lx by simp
    let ?ys = "memmove_records (bv_records b) k (Suc k) (nat (rv d) - 1 - k)"
    have Rv: "R = (Inr (rv d - 1),
         (drain (read_errs env) c_wokefd (compacted k (snd lst) d b s2))
           \<lparr>wait_datas := (wait_datas s2)(snd lst \<mapsto> d\<lparr>rv := 0\<rparr>)\<rparr>)"
      using aw kr by (simp add: Let_def)
    have bvR: "bytevectors (snd R) (events d) = Some (b\<lparr>bv_records := ?ys\<rparr>)"
      using drain_frame[of "read_errs env" c_wokefd "compacted k (snd lst) d b s2"]
      by (simp add: Rv compacted_def)
    have c1: "fst R = Inr (int (length xs) - (if c_wokefd \<in> fd ` set xs then 1 else 0))"
      using Rv True found lx r0 by simp
    have f: "fst R = Inr (int (nat (rv d) - 1))" using Rv kr by (simp add: nat_diff_distrib)
    have t: "take (nat (rv d) - 1) (bv_records (b\<lparr>bv_records := ?ys\<rparr>))
               = take k xs @ drop (Suc k) xs"
      using memmove_compact_take[OF kr le] by (simp add: xs)
    have c2: "\<exists>n b'. fst R = Inr (int n) \<and> bytevectors (snd R) (events d) = Some b'
             \<and> take n (bv_records b') = take k xs @ drop (Suc k) xs"
      using f bvR t by blast
    from c1 c2 c3 show ?thesis by blast
  next
    case False
    then have kr: "\<not> k < nat (rv d)" using lx by simp
    have Rv: "R = (Inr (rv d), s2\<lparr>wait_datas := (wait_datas s2)(snd lst \<mapsto> d\<lparr>rv := 0\<rparr>)\<rparr>)"
      using aw kr by (simp add: Let_def)
    have c1: "fst R = Inr (int (length xs) - (if c_wokefd \<in> fd ` set xs then 1 else 0))"
      using Rv False found lx r0 by simp
    have f: "fst R = Inr (int (nat (rv d)))" using Rv r0 by simp
    have bvR: "bytevectors (snd R) (events d) = Some b" using bv by (simp add: Rv)
    have keq: "k = length xs" using False p1 by simp
    have "take (nat (rv d)) (bv_records b) = xs" using xs by simp
    then have t: "take (nat (rv d)) (bv_records b) = take k xs @ drop (Suc k) xs"
      using keq by simp
    have c2: "\<exists>n b'. fst R = Inr (int n) \<and> bytevectors (snd R) (events d) = Some b'
             \<and> take n (bv_records b') = take k xs @ drop (Suc k) xs"
      using f bvR t by blast
    from c1 c2 c3 show ?thesis by blast
  qed
qed

theorem wake_record_removed_witness:
  "fst (scm_primitive_event_loop watch_env (2, 3) 16 15 0 watch_state) = Inr 2
   \<and> 15 \<notin> fd ` set [\<lparr>fd = 17, event = 2\<rparr>, \<lparr>fd = 19, event = 2\<rparr>]"
  using wake_record_removed [where lst = "(2, 3)" and c_timeout = 0
          and env = watch_env and c_wakefd = 16 and c_wokefd = 15 and s = watch_state
          and ?s2.0 = "snd (event_loop_wait watch_env (2, 3) 0
                              (if (0::int) \<noteq> 0 then emit (Prepare_to_wait_on_fd 16) watch_state
                               else watch_state))"
          and d = "\<lparr>rv = 3, events = 100, maxevents = 4\<rparr>"
          and b = "\<lparr>bv_records = [\<lparr>fd = 17, event = 2\<rparr>, \<lparr>fd = 15, event = 2\<rparr>,
                          \<lparr>fd = 19, event = 2\<rparr>, \<lparr>fd = 0, event = 0\<rparr>], bv_tail = 0\<rparr>"
          and xs = "[\<lparr>fd = 17, event = 2\<rparr>, \<lparr>fd = 15, event = 2\<rparr>, \<lparr>fd = 19, event = 2\<rparr>]"
          and k = 1
          and R = "scm_primitive_event_loop watch_env (2, 3) 16 15 0 watch_state"]
        watch_wait_returns [of 0] watch_wait_data [of 0] watch_wait_buffer [of 0]
  by (auto simp: NULL_def first_woke_def eval_nat_numeral)


text \<open>
  C2 as stated fails when the woke descriptor has been collected twice: with two watches
  on descriptor 15 that both fire, the iteration returns one record, and its descriptor is
  15.
\<close>

theorem wake_record_counterexample:
  "fst (scm_primitive_event_loop twice_env (2, 3) 16 15 0 twice_state) = Inr 1
   \<and> map fd (take 1 (bv_records (the (bytevectors
          (snd (scm_primitive_event_loop twice_env (2, 3) 16 15 0 twice_state)) 100))))
       = [15]"
  using drain_frame [of "[]" 15 "compacted 0 3 \<lparr>rv = 2, events = 100, maxevents = 4\<rparr>
         \<lparr>bv_records = [\<lparr>fd = 15, event = 2\<rparr>, \<lparr>fd = 15, event = 2\<rparr>,
                          \<lparr>fd = 0, event = 0\<rparr>, \<lparr>fd = 0, event = 0\<rparr>], bv_tail = 0\<rparr>
         (snd (event_loop_wait twice_env (2, 3) 0 twice_state))"]
  by (simp add: twice_result compacted_def memmove_records_def)

subsection \<open>What each step appends to the trace\<close>

lemma set_pending_frame:
  "trace (set_pending p v s) = trace s \<and> wait_datas (set_pending p v s) = wait_datas s
   \<and> bytevectors (set_pending p v s) = bytevectors s
   \<and> readable (set_pending p v s) = readable s
   \<and> scm_c_time_units_per_second (set_pending p v s) = scm_c_time_units_per_second s
   \<and> time_units_per_microsec (set_pending p v s) = time_units_per_microsec s
   \<and> microsec_per_time_units (set_pending p v s) = microsec_per_time_units s"
  by (simp add: set_pending_def split: option.splits)

lemma cb_func_frame:
  "trace (snd (cb_func c_fd what arg s)) = trace s
   \<and> libevent_events (snd (cb_func c_fd what arg s)) = libevent_events s
   \<and> readable (snd (cb_func c_fd what arg s)) = readable s"
  by (simp add: cb_func_def memcpy_event_data_def split: option.splits)

lemma run_callback_frame:
  "trace (snd (run_callback cb c_fd what arg s)) = trace s
   \<and> libevent_events (snd (run_callback cb c_fd what arg s)) = libevent_events s
   \<and> readable (snd (run_callback cb c_fd what arg s)) = readable s"
  by (cases cb) (simp_all add: cb_func_frame)

lemma dispatch_frame:
  "trace (snd (dispatch fs b s)) = trace s \<and> readable (snd (dispatch fs b s)) = readable s"
proof (induction fs arbitrary: s)
  case Nil
  show ?case by simp
next
  case (Cons f fs)
  obtain p what where f: "f = (p, what)" by (cases f)
  show ?case
  proof (cases "libevent_events s p")
    case None
    then show ?thesis using Cons f by simp
  next
    case (Some e)
    show ?thesis
    proof (cases "ev_pending e \<and> ev_base e = b")
      case False
      then show ?thesis using Cons f Some by auto
    next
      case True
      let ?s1 = "if ev_persistent e then s else set_pending p False s"
      have t1: "trace ?s1 = trace s \<and> readable ?s1 = readable s"
        by (simp add: set_pending_frame)
      obtain r s2 where rc: "run_callback (ev_callback e) (ev_fd e) what (ev_arg e) ?s1 = (r, s2)"
        by (cases "run_callback (ev_callback e) (ev_fd e) what (ev_arg e) ?s1")
      have t2: "trace s2 = trace s \<and> readable s2 = readable s"
        using run_callback_frame[of "ev_callback e" "ev_fd e" what "ev_arg e" ?s1] rc t1
        by simp
      show ?thesis
      proof (cases r)
        case (Inl err)
        then show ?thesis using f Some True rc t2 by simp
      next
        case (Inr u)
        then show ?thesis using f Some True rc t2 Cons[of s2] by simp
      qed
    qed
  qed
qed

lemma run_event_loop_trace:
  "trace (snd (run_event_loop env \<lparr>base = b, timeout = t\<rparr> s))
     = trace s @ wait_actions env b t s"
proof -
  have d: "trace (snd (dispatch fs b s')) = trace s'" for fs s'
    using dispatch_frame by simp
  show ?thesis
  proof (cases "t \<ge> 0 \<and> \<not> loopexit_ok env")
    case True
    then show ?thesis
      by (simp add: run_event_loop_def wait_actions_def event_base_loopexit_def emit_def
            loop_timeval_def)
  next
    case False
    let ?s1 = "if t \<ge> 0 then emit (Event_base_loopexit b (loop_timeval s t)) s else s"
    obtain r s2 where dp: "dispatch (fired env) b (emit (Event_base_loop_once b) ?s1) = (r, s2)"
      by (cases "dispatch (fired env) b (emit (Event_base_loop_once b) ?s1)")
    have "trace s2 = trace (emit (Event_base_loop_once b) ?s1)"
      using d[of "fired env" "emit (Event_base_loop_once b) ?s1"] dp by simp
    then have t2: "trace s2 = trace s @ wait_actions env b t s"
      using False by (auto simp: wait_actions_def emit_def)
    show ?thesis
      using False dp t2
      by (cases r)
         (auto simp: run_event_loop_def event_base_loopexit_def event_base_loop_def
                     loop_timeval_def split: if_splits)
  qed
qed

lemma run_event_loop_returns:
  assumes "fst (run_event_loop env \<lparr>base = b, timeout = t\<rparr> s) = Inr u"
  shows "Event_base_loop_once b \<in> set (wait_actions env b t s)"
  using assms
  by (auto simp: run_event_loop_def wait_actions_def event_base_loopexit_def
           split: if_splits prod.splits sum.splits)

lemma sys_read_trace:
  "sys_read errs w n s = (r, errs1, s1) \<Longrightarrow> trace s1 = trace s @ [Sys_read w n r]"
  by (auto simp: sys_read_def emit_def Let_def split: if_splits)

lemma drain_trace:
  "\<exists>rs. trace (drain errs w s) = trace s @ map (Sys_read w 32) rs
        \<and> rs \<noteq> [] \<and> (\<forall>r\<in>set (butlast rs). r = 32) \<and> last rs \<noteq> 32"
proof (induction errs w s rule: drain.induct)
  case (1 errs w s)
  obtain r errs1 s1 where sr: "sys_read errs w 32 s = (r, errs1, s1)"
    by (cases "sys_read errs w 32 s") auto
  note t1 = sys_read_trace[OF sr]
  show ?case
  proof (cases "r = 32")
    case False
    have "drain errs w s = s1" using sr False by (subst drain.simps) simp
    then have "trace (drain errs w s) = trace s @ map (Sys_read w 32) [r] \<and> [r] \<noteq> []
        \<and> (\<forall>x\<in>set (butlast [r]). x = 32) \<and> last [r] \<noteq> 32"
      using t1 False by simp
    then show ?thesis by blast
  next
    case True
    have eq: "drain errs w s = drain errs1 w s1" using sr True by (subst drain.simps) simp
    from "1.IH"[OF sr[symmetric] refl True] obtain rs where
      rs: "trace (drain errs1 w s1) = trace s1 @ map (Sys_read w 32) rs" "rs \<noteq> []"
          "\<forall>r\<in>set (butlast rs). r = 32" "last rs \<noteq> 32"
      by blast
    have "trace (drain errs w s) = trace s @ map (Sys_read w 32) (r # rs) \<and> r # rs \<noteq> []
        \<and> (\<forall>x\<in>set (butlast (r # rs)). x = 32) \<and> last (r # rs) \<noteq> 32"
      using rs t1 True eq by simp
    then show ?thesis by blast
  qed
qed

lemma drain_readable:
  assumes "True \<notin> set errs"
  shows "readable (drain errs w s) w = 0"
  using assms
proof (induction errs w s rule: drain.induct)
  case (1 errs w s)
  obtain r errs1 s1 where sr: "sys_read errs w 32 s = (r, errs1, s1)"
    by (cases "sys_read errs w 32 s") auto
  have ne: "\<not> (errs \<noteq> [] \<and> hd errs)" using "1.prems" by (cases errs) auto
  have e1: "True \<notin> set errs1" using sr "1.prems" by (cases errs) (auto simp: sys_read_def Let_def)
  show ?case
  proof (cases "r = 32")
    case True
    have eq: "drain errs w s = drain errs1 w s1" using sr True by (subst drain.simps) simp
    show ?thesis using "1.IH"[OF sr[symmetric] refl True e1] eq by simp
  next
    case False
    have eq: "drain errs w s = s1" using sr False by (subst drain.simps) simp
    have "readable s1 w = 0"
      using sr ne False by (auto simp: sys_read_def Let_def emit_def min_def split: if_splits)
    then show ?thesis using eq by simp
  qed
qed

lemma scan_trace:
  "\<exists>rs. trace (snd (event_loop_scan errs dp w i s)) = trace s @ map (Sys_read w 32) rs"
proof (induction errs dp w i s rule: event_loop_scan.induct)
  case (1 errs dp w i s)
  have triv: "trace s = trace s @ map (Sys_read w 32) []" by simp
  show ?case
  proof (cases "wait_datas s dp")
    case None
    then have "snd (event_loop_scan errs dp w i s) = s"
      by (subst event_loop_scan.simps) simp
    then show ?thesis using triv by metis
  next
    case (Some d)
    show ?thesis
    proof (cases "i < rv d")
      case False
      then have "snd (event_loop_scan errs dp w i s) = s"
        using Some by (subst event_loop_scan.simps) simp
      then show ?thesis using triv by metis
    next
      case True
      show ?thesis
      proof (cases "read_event_data (events d) i s")
        case None
        then have "snd (event_loop_scan errs dp w i s) = s"
          using Some True by (subst event_loop_scan.simps) simp
        then show ?thesis using triv by metis
      next
        case rd: (Some r)
        show ?thesis
        proof (cases "fd r = w")
          case False
          have "event_loop_scan errs dp w i s = event_loop_scan errs dp w (i + 1) s"
            using Some True rd False by (subst event_loop_scan.simps) simp
          then show ?thesis using "1.IH"[OF Some True rd False] by simp
        next
          case w: True
          let ?s0 = "s\<lparr>wait_datas := (wait_datas s)(dp \<mapsto> d\<lparr>rv := rv d - 1\<rparr>)\<rparr>"
          show ?thesis
          proof (cases "memmove_event_data (events d) i (i + 1) (rv d - 1 - i) ?s0")
            case None
            then have "snd (event_loop_scan errs dp w i s) = s"
              using Some True rd w by (subst event_loop_scan.simps) simp
            then show ?thesis using triv by metis
          next
            case mm: (Some s1)
            have ts1: "trace s1 = trace s"
              using mm by (auto simp: memmove_event_data_def split: option.splits if_splits)
            have "snd (event_loop_scan errs dp w i s) = drain errs w s1"
              using Some True rd w mm by (subst event_loop_scan.simps) simp
            then show ?thesis using drain_trace[of errs w s1] ts1 by auto
          qed
        qed
      qed
    qed
  qed
qed

lemma wait_actions_emit: "wait_actions env b t (emit a s) = wait_actions env b t s"
  by (simp add: wait_actions_def loop_timeval_def emit_def)

lemma event_loop_result_trace: "trace (snd (event_loop_result dp s)) = trace s"
  by (simp add: event_loop_result_def split: option.splits)

lemma event_loop_result_returns:
  "fst (event_loop_result dp s) = Inr n \<Longrightarrow>
     \<exists>d. wait_datas s dp = Some d \<and> rv d = n
        \<and> wait_datas (snd (event_loop_result dp s)) dp = Some (d\<lparr>rv := 0\<rparr>)"
  by (auto simp: event_loop_result_def split: option.splits)

lemma event_loop_trace:
  assumes nn: "snd lst \<noteq> NULL"
      and lv: "libevts s (fst lst) = Some l"
      and R: "R = scm_primitive_event_loop env lst c_wakefd c_wokefd c_timeout s"
      and b: "b = libevt_base l"
  shows "\<exists>ok rs.
           trace (snd R) = trace s @
             (if c_timeout = 0 then
                wait_actions env b 0 s @ map (Sys_read c_wokefd 32) rs
              else if prepare_ret env \<noteq> 0 then [Prepare_to_wait_on_fd c_wakefd]
              else [Prepare_to_wait_on_fd c_wakefd, Leave_guile] @ wait_actions env b c_timeout s
                   @ (if ok then [Enter_guile, Wait_finished] @ map (Sys_read c_wokefd 32) rs
                      else []))
         \<and> (ok \<longrightarrow> Event_base_loop_once b \<in> set (wait_actions env b c_timeout s))
         \<and> ((\<exists>n. fst R = Inr n) \<and> (c_timeout = 0 \<or> prepare_ret env = 0) \<longrightarrow> ok)"
proof (cases "c_timeout \<noteq> 0 \<and> prepare_ret env \<noteq> 0")
  case True
  have "trace (snd R) = trace s @ [Prepare_to_wait_on_fd c_wakefd]"
    using True nn
    by (simp add: R scm_primitive_event_loop_def scm_c_prepare_to_wait_on_fd_def emit_def
                  event_loop_result_def split: option.splits)
  then have "trace (snd R) = trace s @
             (if c_timeout = 0 then
                wait_actions env b 0 s @ map (Sys_read c_wokefd 32) []
              else if prepare_ret env \<noteq> 0 then [Prepare_to_wait_on_fd c_wakefd]
              else [Prepare_to_wait_on_fd c_wakefd, Leave_guile] @ wait_actions env b c_timeout s
                   @ (if False then [Enter_guile, Wait_finished] @ map (Sys_read c_wokefd 32) []
                      else []))
         \<and> (False \<longrightarrow> Event_base_loop_once b \<in> set (wait_actions env b c_timeout s))
         \<and> ((\<exists>n. fst R = Inr n) \<and> (c_timeout = 0 \<or> prepare_ret env = 0) \<longrightarrow> False)"
    using True by simp
  then show ?thesis by blast
next
  case False
  then have ni: "c_timeout = 0 \<or> prepare_ret env = 0" by auto
  let ?s1 = "if c_timeout \<noteq> 0 then emit (Prepare_to_wait_on_fd c_wakefd) s else s"
  let ?s2 = "if c_timeout \<noteq> 0 then emit Leave_guile ?s1 else ?s1"
  let ?ld = "\<lparr>base = b, timeout = c_timeout\<rparr>"
  note top = event_loop_not_interrupted[OF nn ni, of c_wakefd c_wokefd s, folded R]
  have lv1: "libevts ?s1 (fst lst) = Some l" using lv by (simp add: emit_def)
  obtain r1 s3 where run: "run_event_loop env ?ld ?s2 = (r1, s3)"
    by (cases "run_event_loop env ?ld ?s2")
  have wa: "wait_actions env b c_timeout ?s2 = wait_actions env b c_timeout s"
    by (cases "c_timeout = 0") (simp_all add: wait_actions_emit)
  have t3: "trace s3 = trace ?s2 @ wait_actions env b c_timeout s"
    using run_event_loop_trace[of env b c_timeout ?s2] run wa by simp
  show ?thesis
  proof (cases r1)
    case (Inl err)
    have "R = (Inl err, s3)"
      using top lv1 run Inl b
      by (simp add: event_loop_wait_def scm_without_guile_def split: if_splits)
    then have "trace (snd R) = trace s @
             (if c_timeout = 0 then
                wait_actions env b 0 s @ map (Sys_read c_wokefd 32) []
              else if prepare_ret env \<noteq> 0 then [Prepare_to_wait_on_fd c_wakefd]
              else [Prepare_to_wait_on_fd c_wakefd, Leave_guile] @ wait_actions env b c_timeout s
                   @ (if False then [Enter_guile, Wait_finished] @ map (Sys_read c_wokefd 32) []
                      else []))
         \<and> (False \<longrightarrow> Event_base_loop_once b \<in> set (wait_actions env b c_timeout s))
         \<and> ((\<exists>n. fst R = Inr n) \<and> (c_timeout = 0 \<or> prepare_ret env = 0) \<longrightarrow> False)"
      using t3 ni by (auto simp: emit_def)
    then show ?thesis by blast
  next
    case (Inr u)
    let ?s4 = "if c_timeout \<noteq> 0 then emit Wait_finished (emit Enter_guile s3) else s3"
    have wt: "event_loop_wait env lst c_timeout ?s1 = (Inr (), ?s4)"
      using lv1 run Inr b
      by (simp add: event_loop_wait_def scm_without_guile_def scm_c_wait_finished_def
               split: if_splits)
    have lo: "Event_base_loop_once b \<in> set (wait_actions env b c_timeout s)"
      using run_event_loop_returns[of env b c_timeout ?s2 u] run Inr wa
      by simp
    obtain rs where rs: "trace (snd (event_loop_scan (read_errs env) (snd lst) c_wokefd 0 ?s4))
                          = trace ?s4 @ map (Sys_read c_wokefd 32) rs"
      using scan_trace by blast
    obtain r5 s5 where sc: "event_loop_scan (read_errs env) (snd lst) c_wokefd 0 ?s4 = (r5, s5)"
      by (cases "event_loop_scan (read_errs env) (snd lst) c_wokefd 0 ?s4")
    have t5: "trace s5 = trace ?s4 @ map (Sys_read c_wokefd 32) rs" using rs sc by simp
    have "trace (snd R) = trace s5"
      using top wt sc by (cases r5) (simp_all add: event_loop_result_trace)
    then have "trace (snd R) = trace s @
             (if c_timeout = 0 then
                wait_actions env b 0 s @ map (Sys_read c_wokefd 32) rs
              else if prepare_ret env \<noteq> 0 then [Prepare_to_wait_on_fd c_wakefd]
              else [Prepare_to_wait_on_fd c_wakefd, Leave_guile] @ wait_actions env b c_timeout s
                   @ (if True then [Enter_guile, Wait_finished] @ map (Sys_read c_wokefd 32) rs
                      else []))
         \<and> (True \<longrightarrow> Event_base_loop_once b \<in> set (wait_actions env b c_timeout s))
         \<and> ((\<exists>n. fst R = Inr n) \<and> (c_timeout = 0 \<or> prepare_ret env = 0) \<longrightarrow> True)"
      using t5 t3 ni lo by (auto simp: emit_def)
    then show ?thesis by blast
  qed
qed


lemma filter_wait_actions:
  "filter is_wait_step (wait_actions env b t s)
     = (if Event_base_loop_once b \<in> set (wait_actions env b t s) then [Event_base_loop_once b]
        else [])"
  "filter is_guile_call (wait_actions env b t s) = []"
  "filter is_loopexit (wait_actions env b t s)
     = (if t \<ge> 0 then [Event_base_loopexit b (loop_timeval s t)] else [])"
  by (simp_all add: wait_actions_def)

lemma filter_reads:
  "filter is_wait_step (map (Sys_read w n) rs) = []"
  "filter is_guile_call (map (Sys_read w n) rs) = []"
  "filter is_loopexit (map (Sys_read w n) rs) = []"
  by (induction rs) simp_all

subsection \<open>The wait and the scheduler\<close>

lemma watch_result:
  "fst (scm_primitive_event_loop watch_env (2, 3) 16 15 t watch_state) = Inr 2"
  using event_loop_after_wait [where lst = "(2, 3)" and c_timeout = t
          and env = watch_env and c_wakefd = 16 and c_wokefd = 15 and s = watch_state
          and ?s2.0 = "snd (event_loop_wait watch_env (2, 3) t
                              (if t \<noteq> 0 then emit (Prepare_to_wait_on_fd 16) watch_state
                               else watch_state))"
          and d = "\<lparr>rv = 3, events = 100, maxevents = 4\<rparr>"
          and b = "\<lparr>bv_records = [\<lparr>fd = 17, event = 2\<rparr>, \<lparr>fd = 15, event = 2\<rparr>,
                          \<lparr>fd = 19, event = 2\<rparr>, \<lparr>fd = 0, event = 0\<rparr>], bv_tail = 0\<rparr>"]
        watch_wait_returns [of t] watch_wait_data [of t] watch_wait_buffer [of t]
  by (simp add: NULL_def first_woke_def watch_env_def eval_nat_numeral)

text \<open>
  C4. Among the calls into the scheduler and the wait itself, a run-iteration with a
  non-zero timeout makes, in this order and stopping only where an error is raised,
  \<open>scm_c_prepare_to_wait_on_fd\<close> on the wake descriptor, the leaving of guile mode, the
  wait (\<open>event_base_loop\<close>), the return to guile mode and \<open>scm_c_wait_finished\<close>; the
  first is always made, all five are made when the wait is entered and the call returns,
  and only the first when an interrupt is already pending. With a timeout of zero none of
  the scheduler calls is made and the wait runs in the calling context.
\<close>

theorem wait_marked_and_outside_guile:
  assumes nn: "snd lst \<noteq> NULL"
      and lv: "libevts s (fst lst) = Some l"
      and R: "R = scm_primitive_event_loop env lst c_wakefd c_wokefd c_timeout s"
      and b: "b = libevt_base l"
      and new: "new = new_actions s (snd R)"
  shows "(c_timeout \<noteq> 0 \<longrightarrow>
            (\<exists>m\<ge>1. filter is_wait_step new =
               take m [Prepare_to_wait_on_fd c_wakefd, Leave_guile, Event_base_loop_once b,
                       Enter_guile, Wait_finished]))
       \<and> (c_timeout \<noteq> 0 \<and> prepare_ret env = 0 \<and> (\<exists>n. fst R = Inr n) \<longrightarrow>
            filter is_wait_step new =
               [Prepare_to_wait_on_fd c_wakefd, Leave_guile, Event_base_loop_once b,
                Enter_guile, Wait_finished])
       \<and> (c_timeout \<noteq> 0 \<and> prepare_ret env \<noteq> 0 \<longrightarrow>
            filter is_wait_step new = [Prepare_to_wait_on_fd c_wakefd])
       \<and> (c_timeout = 0 \<longrightarrow>
            filter is_guile_call new = []
            \<and> ((\<exists>n. fst R = Inr n) \<longrightarrow> filter is_wait_step new = [Event_base_loop_once b]))"
proof -
  let ?wa = "wait_actions env b c_timeout s"
  let ?full = "[Prepare_to_wait_on_fd c_wakefd, Leave_guile, Event_base_loop_once b,
                Enter_guile, Wait_finished]"
  from event_loop_trace[OF nn lv R b] obtain ok rs where
    tr: "trace (snd R) = trace s @
             (if c_timeout = 0 then
                wait_actions env b 0 s @ map (Sys_read c_wokefd 32) rs
              else if prepare_ret env \<noteq> 0 then [Prepare_to_wait_on_fd c_wakefd]
              else [Prepare_to_wait_on_fd c_wakefd, Leave_guile] @ ?wa
                   @ (if ok then [Enter_guile, Wait_finished] @ map (Sys_read c_wokefd 32) rs
                      else []))"
    and oklo: "ok \<longrightarrow> Event_base_loop_once b \<in> set ?wa"
    and retok: "(\<exists>n. fst R = Inr n) \<and> (c_timeout = 0 \<or> prepare_ret env = 0) \<longrightarrow> ok"
    by blast
  have nw: "new =
             (if c_timeout = 0 then
                wait_actions env b 0 s @ map (Sys_read c_wokefd 32) rs
              else if prepare_ret env \<noteq> 0 then [Prepare_to_wait_on_fd c_wakefd]
              else [Prepare_to_wait_on_fd c_wakefd, Leave_guile] @ ?wa
                   @ (if ok then [Enter_guile, Wait_finished] @ map (Sys_read c_wokefd 32) rs
                      else []))"
    unfolding new new_actions_def tr by simp
  have zero: "c_timeout = 0 \<longrightarrow>
            filter is_guile_call new = []
            \<and> ((\<exists>n. fst R = Inr n) \<longrightarrow> filter is_wait_step new = [Event_base_loop_once b])"
    using nw oklo retok by (auto simp: filter_wait_actions filter_reads)
  have intr: "c_timeout \<noteq> 0 \<and> prepare_ret env \<noteq> 0 \<longrightarrow>
            filter is_wait_step new = [Prepare_to_wait_on_fd c_wakefd]"
    using nw by simp
  have ret: "c_timeout \<noteq> 0 \<and> prepare_ret env = 0 \<and> (\<exists>n. fst R = Inr n) \<longrightarrow>
            filter is_wait_step new = ?full"
    using nw oklo retok by (auto simp: filter_wait_actions filter_reads)
  have pre: "c_timeout \<noteq> 0 \<longrightarrow> (\<exists>m\<ge>1. filter is_wait_step new = take m ?full)"
  proof
    assume t: "c_timeout \<noteq> 0"
    show "\<exists>m\<ge>1. filter is_wait_step new = take m ?full"
    proof (cases "prepare_ret env \<noteq> 0")
      case True
      then have "filter is_wait_step new = take 1 ?full" using nw t by simp
      then show ?thesis by (intro exI[of _ 1]) simp
    next
      case ni: False
      show ?thesis
      proof (cases "Event_base_loop_once b \<in> set ?wa")
        case False
        then have "filter is_wait_step new = take 2 ?full"
          using nw t ni oklo by (simp add: filter_wait_actions filter_reads)
        then show ?thesis by (intro exI[of _ 2]) simp
      next
        case lo: True
        show ?thesis
        proof (cases ok)
          case False
          then have "filter is_wait_step new = take 3 ?full"
            using nw t ni lo by (simp add: filter_wait_actions filter_reads)
          then show ?thesis by (intro exI[of _ 3]) simp
        next
          case True
          then have "filter is_wait_step new = take 5 ?full"
            using nw t ni lo by (simp add: filter_wait_actions filter_reads)
          then show ?thesis by (intro exI[of _ 5]) simp
        qed
      qed
    qed
  qed
  from pre ret intr zero show ?thesis by blast
qed


theorem wait_marked_and_outside_guile_witness:
  "filter is_wait_step (new_actions watch_state
       (snd (scm_primitive_event_loop watch_env (2, 3) 16 15 (- 1) watch_state)))
     = [Prepare_to_wait_on_fd 16, Leave_guile, Event_base_loop_once 1, Enter_guile,
        Wait_finished]
   \<and> filter is_guile_call (new_actions watch_state
       (snd (scm_primitive_event_loop watch_env (2, 3) 16 15 0 watch_state))) = []
   \<and> filter is_wait_step (new_actions watch_state
       (snd (scm_primitive_event_loop watch_env (2, 3) 16 15 0 watch_state)))
     = [Event_base_loop_once 1]"
  using wait_marked_and_outside_guile [where lst = "(2, 3)" and s = watch_state
          and l = "\<lparr>libevt_base = 1\<rparr>" and env = watch_env and c_wakefd = 16
          and c_wokefd = 15 and c_timeout = "- 1" and b = 1
          and R = "scm_primitive_event_loop watch_env (2, 3) 16 15 (- 1) watch_state"
          and new = "new_actions watch_state
                       (snd (scm_primitive_event_loop watch_env (2, 3) 16 15 (- 1) watch_state))"]
        wait_marked_and_outside_guile [where lst = "(2, 3)" and s = watch_state
          and l = "\<lparr>libevt_base = 1\<rparr>" and env = watch_env and c_wakefd = 16
          and c_wokefd = 15 and c_timeout = 0 and b = 1
          and R = "scm_primitive_event_loop watch_env (2, 3) 16 15 0 watch_state"
          and new = "new_actions watch_state
                       (snd (scm_primitive_event_loop watch_env (2, 3) 16 15 0 watch_state))"]
        watch_handle watch_result [of "- 1"] watch_result [of 0]
  by (simp add: NULL_def watch_env_def)

subsection \<open>The deadline of the wait\<close>

lemma c_div_nonneg: "0 \<le> a \<Longrightarrow> 0 < b \<Longrightarrow> c_div a b = a div b"
  by (simp add: c_div_def)

lemma c_mod_nonneg: "0 \<le> a \<Longrightarrow> 0 < b \<Longrightarrow> c_mod a b = a mod b"
  by (simp add: c_mod_def c_div_nonneg minus_mult_div_eq_mod)

lemma loop_timeval_value:
  assumes t: "0 \<le> t" and U: "U = scm_c_time_units_per_second s" "0 < U"
      and tu: "time_units_per_microsec s = c_div U 1000000"
      and mu: "microsec_per_time_units s = c_div 1000000 U"
  shows "loop_timeval s t =
           \<lparr>tv_sec = t div U,
            tv_usec = (if U > 1000000 then (t mod U) div (U div 1000000)
                       else (t mod U) * (1000000 div U))\<rparr>"
proof -
  have sec: "c_div t (scm_c_time_units_per_second s) = t div U"
    using t U by (simp add: c_div_nonneg)
  have md: "c_mod t (scm_c_time_units_per_second s) = t mod U"
    using t U by (simp add: c_mod_nonneg)
  have m0: "0 \<le> t mod U" using U by simp
  have tu': "time_units_per_microsec s = U div 1000000"
    using tu U by (simp add: c_div_nonneg)
  have mu': "microsec_per_time_units s = 1000000 div U"
    using mu U by (simp add: c_div_nonneg)
  show ?thesis
  proof (cases "U > 1000000")
    case True
    then have p: "0 < U div 1000000" by (simp add: pos_imp_zdiv_pos_iff)
    then show ?thesis
      using True sec md m0 tu' by (simp add: loop_timeval_def c_div_nonneg)
  next
    case False
    show ?thesis
    proof (cases "U = 1000000")
      case True
      then show ?thesis
        using sec md m0 tu' mu' by (simp add: loop_timeval_def c_div_nonneg)
    next
      case ne: False
      then have "U < 1000000" using False by simp
      then have "U div 1000000 = 0" using U by simp
      then show ?thesis
        using False sec md tu' mu' by (simp add: loop_timeval_def)
    qed
  qed
qed

text \<open>
  C5. Let \<open>U\<close> be the number of time units per second, positive, with the two conversion
  factors as \<open>init_fibers_libevt\<close> computes them. For a timeout \<open>T\<close> that is not
  negative, \<open>run_event_loop\<close> first calls \<open>event_base_loopexit\<close>, once, with
  \<open>tv_sec = T div U\<close> and \<open>tv_usec\<close> the remainder \<open>T mod U\<close> divided by
  \<open>U div 1000000\<close> when \<open>U\<close> exceeds 1000000 and multiplied by \<open>1000000 div U\<close>
  otherwise; for a negative timeout it calls \<open>event_base_loop\<close> and nothing else. A
  run-iteration on a valid handle makes that one call of \<open>event_base_loopexit\<close> when the
  timeout is not negative and the wait is entered, and none when the timeout is negative.
\<close>

theorem loopexit_deadline:
  assumes U: "U = scm_c_time_units_per_second s" "0 < U"
      and tu: "time_units_per_microsec s = c_div U 1000000"
      and mu: "microsec_per_time_units s = c_div 1000000 U"
      and tv: "tv = \<lparr>tv_sec = T div U,
                      tv_usec = (if U > 1000000 then (T mod U) div (U div 1000000)
                                 else (T mod U) * (1000000 div U))\<rparr>"
      and W: "W = new_actions s (snd (run_event_loop env \<lparr>base = b, timeout = T\<rparr> s))"
      and R: "R = scm_primitive_event_loop env lst c_wakefd c_wokefd T s"
  shows "(0 \<le> T \<longrightarrow> hd W = Event_base_loopexit b tv
                  \<and> filter is_loopexit W = [Event_base_loopexit b tv])
       \<and> (T < 0 \<longrightarrow> W = [Event_base_loop_once b])
       \<and> (snd lst \<noteq> NULL \<and> libevts s (fst lst) = Some l \<and> b = libevt_base l \<longrightarrow>
            (0 \<le> T \<and> (T = 0 \<or> prepare_ret env = 0) \<longrightarrow>
               filter is_loopexit (new_actions s (snd R)) = [Event_base_loopexit b tv])
            \<and> (T < 0 \<longrightarrow> filter is_loopexit (new_actions s (snd R)) = []))"
proof -
  let ?wa = "wait_actions env b T s"
  have val: "0 \<le> T \<longrightarrow> loop_timeval s T = tv"
    using loop_timeval_value[OF _ U tu mu, of T] tv by simp
  have Wv: "W = ?wa"
    using run_event_loop_trace[of env b T s] by (simp add: W new_actions_def)
  have c1: "0 \<le> T \<longrightarrow> hd W = Event_base_loopexit b tv
                  \<and> filter is_loopexit W = [Event_base_loopexit b tv]"
    using val by (simp add: Wv filter_wait_actions) (simp add: wait_actions_def)
  have c2: "T < 0 \<longrightarrow> W = [Event_base_loop_once b]"
    by (simp add: Wv wait_actions_def)
  have c3: "snd lst \<noteq> NULL \<and> libevts s (fst lst) = Some l \<and> b = libevt_base l \<longrightarrow>
            (0 \<le> T \<and> (T = 0 \<or> prepare_ret env = 0) \<longrightarrow>
               filter is_loopexit (new_actions s (snd R)) = [Event_base_loopexit b tv])
            \<and> (T < 0 \<longrightarrow> filter is_loopexit (new_actions s (snd R)) = [])"
  proof
    assume h: "snd lst \<noteq> NULL \<and> libevts s (fst lst) = Some l \<and> b = libevt_base l"
    then have nn: "snd lst \<noteq> NULL" and lv: "libevts s (fst lst) = Some l"
      and b: "b = libevt_base l" by simp_all
    from event_loop_trace[OF nn lv R b] obtain ok rs where
      tr: "trace (snd R) = trace s @
               (if T = 0 then
                  wait_actions env b 0 s @ map (Sys_read c_wokefd 32) rs
                else if prepare_ret env \<noteq> 0 then [Prepare_to_wait_on_fd c_wakefd]
                else [Prepare_to_wait_on_fd c_wakefd, Leave_guile] @ ?wa
                     @ (if ok then [Enter_guile, Wait_finished] @ map (Sys_read c_wokefd 32) rs
                        else []))"
      by blast
    have nw: "new_actions s (snd R) =
               (if T = 0 then
                  wait_actions env b 0 s @ map (Sys_read c_wokefd 32) rs
                else if prepare_ret env \<noteq> 0 then [Prepare_to_wait_on_fd c_wakefd]
                else [Prepare_to_wait_on_fd c_wakefd, Leave_guile] @ ?wa
                     @ (if ok then [Enter_guile, Wait_finished] @ map (Sys_read c_wokefd 32) rs
                        else []))"
      unfolding new_actions_def tr by simp
    have neg: "T < 0 \<longrightarrow> filter is_loopexit (new_actions s (snd R)) = []"
      using nw by (auto simp: filter_wait_actions filter_reads)
    have pos: "0 \<le> T \<and> (T = 0 \<or> prepare_ret env = 0) \<longrightarrow>
              filter is_loopexit (new_actions s (snd R))
                = [Event_base_loopexit b (loop_timeval s T)]"
      using nw by (auto simp: filter_wait_actions filter_reads)
    from pos neg val
    show "(0 \<le> T \<and> (T = 0 \<or> prepare_ret env = 0) \<longrightarrow>
               filter is_loopexit (new_actions s (snd R)) = [Event_base_loopexit b tv])
            \<and> (T < 0 \<longrightarrow> filter is_loopexit (new_actions s (snd R)) = [])"
      by simp
  qed
  from c1 c2 c3 show ?thesis by blast
qed

lemma init_conversion_factors:
  "time_units_per_microsec (init_fibers_libevt s)
     = c_div (scm_c_time_units_per_second (init_fibers_libevt s)) 1000000
   \<and> microsec_per_time_units (init_fibers_libevt s)
     = c_div 1000000 (scm_c_time_units_per_second (init_fibers_libevt s))"
  by (simp add: init_fibers_libevt_def)

lemma watch_clock:
  "scm_c_time_units_per_second watch_state = 1000000000
   \<and> time_units_per_microsec watch_state = 1000
   \<and> microsec_per_time_units watch_state = 0"
  by (simp add: watch_state_def eval_simps)

theorem loopexit_deadline_witness:
  "filter is_loopexit (new_actions watch_state
       (snd (scm_primitive_event_loop watch_env (2, 3) 16 15 2500000000 watch_state)))
     = [Event_base_loopexit 1 \<lparr>tv_sec = 2, tv_usec = 500000\<rparr>]
   \<and> new_actions watch_state
       (snd (run_event_loop watch_env \<lparr>base = 1, timeout = - 1\<rparr> watch_state))
     = [Event_base_loop_once 1]"
  using loopexit_deadline [where lst = "(2, 3)" and s = watch_state
          and l = "\<lparr>libevt_base = 1\<rparr>" and env = watch_env and c_wakefd = 16
          and c_wokefd = 15 and T = 2500000000 and b = 1 and U = 1000000000
          and tv = "\<lparr>tv_sec = 2, tv_usec = 500000\<rparr>"
          and W = "new_actions watch_state
               (snd (run_event_loop watch_env \<lparr>base = 1, timeout = 2500000000\<rparr> watch_state))"
          and R = "scm_primitive_event_loop watch_env (2, 3) 16 15 2500000000 watch_state"]
        loopexit_deadline [where lst = "(2, 3)" and s = watch_state
          and l = "\<lparr>libevt_base = 1\<rparr>" and env = watch_env and c_wakefd = 16
          and c_wokefd = 15 and T = "- 1" and b = 1 and U = 1000000000
          and tv = "\<lparr>tv_sec = - 1, tv_usec = 999999\<rparr>"
          and W = "new_actions watch_state
               (snd (run_event_loop watch_env \<lparr>base = 1, timeout = - 1\<rparr> watch_state))"
          and R = "scm_primitive_event_loop watch_env (2, 3) 16 15 (- 1) watch_state"]
        watch_handle watch_clock
  by (simp add: NULL_def watch_env_def c_div_def)

subsection \<open>The drain of the wake descriptor\<close>

text \<open>
  C6. The descriptor is read as a non-blocking one with no writer at work during the
  drain. Take a run-iteration that is not interrupted before the wait and whose wait
  returns with the woke descriptor among the collected records. Then the call returns
  (one record less) whatever the reads do, so a failing read is ignored; what it does
  after the wait is a non-empty run of reads of 32 bytes from the woke descriptor, each
  but the last returning 32 and the last returning something else; and when no read
  fails, no byte is left pending on the woke descriptor.
\<close>

theorem wake_descriptor_drained:
  assumes nn: "snd lst \<noteq> NULL"
      and ni: "c_timeout = 0 \<or> prepare_ret env = 0"
      and wt: "event_loop_wait env lst c_timeout
                 (if c_timeout \<noteq> 0 then emit (Prepare_to_wait_on_fd c_wakefd) s else s)
               = (Inr (), s2)"
      and wd: "wait_datas s2 (snd lst) = Some d"
      and bv: "bytevectors s2 (events d) = Some b"
      and r0: "0 \<le> rv d"
      and rl: "rv d \<le> int (length (bv_records b))"
      and xs: "xs = take (nat (rv d)) (bv_records b)"
      and found: "c_wokefd \<in> fd ` set xs"
      and R: "R = scm_primitive_event_loop env lst c_wakefd c_wokefd c_timeout s"
  shows "fst R = Inr (rv d - 1)
       \<and> (\<exists>rs. new_actions s2 (snd R) = map (Sys_read c_wokefd 32) rs
              \<and> rs \<noteq> [] \<and> (\<forall>r\<in>set (butlast rs). r = 32) \<and> last rs \<noteq> 32)
       \<and> (True \<notin> set (read_errs env) \<longrightarrow> readable (snd R) c_wokefd = 0)"
proof -
  define k where "k = first_woke xs c_wokefd 0"
  have le: "nat (rv d) \<le> length (bv_records b)" using rl by linarith
  have lx: "length xs = nat (rv d)" using xs le by simp
  have kr: "k < nat (rv d)" using found first_woke_found_iff[of xs c_wokefd] lx k_def by simp
  let ?c = "compacted k (snd lst) d b s2"
  note aw = event_loop_after_wait[OF nn ni wt wd bv r0 rl, of c_wokefd, folded xs k_def R]
  have Rv: "R = (Inr (rv d - 1),
         (drain (read_errs env) c_wokefd ?c)
           \<lparr>wait_datas := (wait_datas s2)(snd lst \<mapsto> d\<lparr>rv := 0\<rparr>)\<rparr>)"
    using aw kr by (simp add: Let_def)
  have c1: "fst R = Inr (rv d - 1)" using Rv by simp
  obtain rs where rs: "trace (drain (read_errs env) c_wokefd ?c) = trace ?c @ map (Sys_read c_wokefd 32) rs"
      "rs \<noteq> []" "\<forall>r\<in>set (butlast rs). r = 32" "last rs \<noteq> 32"
    using drain_trace[of "read_errs env" c_wokefd ?c] by blast
  have "trace (snd R) = trace s2 @ map (Sys_read c_wokefd 32) rs"
    using rs(1) by (simp add: Rv compacted_def)
  then have "new_actions s2 (snd R) = map (Sys_read c_wokefd 32) rs"
    by (simp add: new_actions_def)
  with rs have c2: "\<exists>rs. new_actions s2 (snd R) = map (Sys_read c_wokefd 32) rs
              \<and> rs \<noteq> [] \<and> (\<forall>r\<in>set (butlast rs). r = 32) \<and> last rs \<noteq> 32"
    by blast
  have c3: "True \<notin> set (read_errs env) \<longrightarrow> readable (snd R) c_wokefd = 0"
    using drain_readable[of "read_errs env" c_wokefd ?c] by (simp add: Rv)
  from c1 c2 c3 show ?thesis by blast
qed

theorem wake_descriptor_drained_witness:
  "fst (scm_primitive_event_loop watch_env (2, 3) 16 15 0 watch_state) = Inr 2
   \<and> readable (snd (scm_primitive_event_loop watch_env (2, 3) 16 15 0 watch_state)) 15 = 0"
  using wake_descriptor_drained [where lst = "(2, 3)" and c_timeout = 0
          and env = watch_env and c_wakefd = 16 and c_wokefd = 15 and s = watch_state
          and ?s2.0 = "snd (event_loop_wait watch_env (2, 3) 0
                              (if (0::int) \<noteq> 0 then emit (Prepare_to_wait_on_fd 16) watch_state
                               else watch_state))"
          and d = "\<lparr>rv = 3, events = 100, maxevents = 4\<rparr>"
          and b = "\<lparr>bv_records = [\<lparr>fd = 17, event = 2\<rparr>, \<lparr>fd = 15, event = 2\<rparr>,
                          \<lparr>fd = 19, event = 2\<rparr>, \<lparr>fd = 0, event = 0\<rparr>], bv_tail = 0\<rparr>"
          and xs = "[\<lparr>fd = 17, event = 2\<rparr>, \<lparr>fd = 15, event = 2\<rparr>, \<lparr>fd = 19, event = 2\<rparr>]"
          and R = "scm_primitive_event_loop watch_env (2, 3) 16 15 0 watch_state"]
        watch_wait_returns [of 0] watch_wait_data [of 0] watch_wait_buffer [of 0]
  by (simp add: NULL_def watch_env_def eval_nat_numeral)

lemma watch_state_pending: "readable watch_state 15 = 40"
  by (simp add: watch_state_def eval_simps)

lemma drain_example:
  "readable s 15 = 40 \<Longrightarrow>
     new_actions s (drain [] 15 s) = [Sys_read 15 32 32, Sys_read 15 32 8]"
  by (simp add: drain.simps[of _ 15] sys_read_def emit_def new_actions_def Let_def)

subsection \<open>Errors of the wake write and of allocation\<close>

text \<open>
  C8. \<open>primitive-event-wake\<close> asks for one write of one byte on the wake descriptor. It
  returns normally when the write returns a positive count, and when \<open>errno\<close> is
  \<open>EWOULDBLOCK\<close> or \<open>EAGAIN\<close>; when the write returns no positive count with any other
  \<open>errno\<close> it raises a system error. When libevent cannot make a base,
  \<open>primitive-create-event-base\<close> raises "couldn't allocate event_base", and when it cannot
  make an event, \<open>primitive-add-event\<close> raises "couldn't allocate event"; both leave the
  state as it was.
\<close>

theorem wake_and_allocation_errors:
  "snd (scm_primitive_event_wake (r, en) c_fd s) = emit (Sys_write c_fd 1) s
   \<and> (0 < r \<or> en = EWOULDBLOCK \<or> en = EAGAIN \<longrightarrow>
        fst (scm_primitive_event_wake (r, en) c_fd s) = Inr ())
   \<and> (r \<le> 0 \<and> en \<noteq> EWOULDBLOCK \<and> en \<noteq> EAGAIN \<longrightarrow>
        fst (scm_primitive_event_wake (r, en) c_fd s)
          = Inl (System_error ''primitive-event-wake'' en))
   \<and> scm_primitive_create_event_base False eventsv s
        = (Inl (Misc_error ''primitive-create-event-base'' ''couldn't allocate event_base'' []),
           s)
   \<and> (libevts s (fst lst) \<noteq> None \<longrightarrow>
        scm_primitive_add_event False add_ok lst w_fd c_ev s
          = (Inl (Misc_error ''primitive-add-event'' ''couldn't allocate event'' []), s))"
  by (auto simp: scm_primitive_event_wake_def sys_write_def
                 scm_primitive_create_event_base_def event_base_new_def
                 scm_primitive_add_event_def event_new_def)

lemma watch_handle_valid: "libevts watch_state (fst (2, 3)) \<noteq> None"
  by (simp add: watch_handle)

theorem wake_and_allocation_errors_witness:
  "fst (scm_primitive_event_wake (1, EBADF) 16 watch_state) = Inr ()
   \<and> fst (scm_primitive_event_wake (- 1, EAGAIN) 16 watch_state) = Inr ()
   \<and> fst (scm_primitive_event_wake (- 1, EWOULDBLOCK) 16 watch_state) = Inr ()
   \<and> fst (scm_primitive_event_wake (- 1, EPIPE) 16 watch_state)
        = Inl (System_error ''primitive-event-wake'' EPIPE)
   \<and> new_actions watch_state (snd (scm_primitive_event_wake (1, EBADF) 16 watch_state))
        = [Sys_write 16 1]
   \<and> scm_primitive_add_event False True (2, 3) 21 18 watch_state
        = (Inl (Misc_error ''primitive-add-event'' ''couldn't allocate event'' []), watch_state)
   \<and> scm_primitive_create_event_base False 100 watch_state
        = (Inl (Misc_error ''primitive-create-event-base'' ''couldn't allocate event_base'' []),
           watch_state)"
  using wake_and_allocation_errors [where r = "1" and en = EBADF and c_fd = 16
          and s = watch_state and eventsv = 100 and lst = "(2, 3)" and add_ok = True and w_fd = 21 and c_ev = 18]
        wake_and_allocation_errors [where r = "- 1" and en = EAGAIN and c_fd = 16
          and s = watch_state and eventsv = 100 and lst = "(2, 3)" and add_ok = True and w_fd = 21 and c_ev = 18]
        wake_and_allocation_errors [where r = "- 1" and en = EWOULDBLOCK and c_fd = 16
          and s = watch_state and eventsv = 100 and lst = "(2, 3)" and add_ok = True and w_fd = 21 and c_ev = 18]
        wake_and_allocation_errors [where r = "- 1" and en = EPIPE and c_fd = 16
          and s = watch_state and eventsv = 100 and lst = "(2, 3)" and add_ok = True and w_fd = 21 and c_ev = 18]
        watch_handle_valid
  by (simp add: new_actions_def emit_def)

subsection \<open>Registrations\<close>

lemmas loop_simps =
  scm_primitive_event_loop_def event_loop_result_def read_event_data_def
  memmove_event_data_def memmove_records_def scm_c_prepare_to_wait_on_fd_def

lemma oneshot_first:
  "fst (scm_primitive_event_loop oneshot_env (2, 3) 16 99 0 oneshot_state) = Inr 1"
  by (simp add: oneshot_state_def oneshot_env_def EV_READ_def eval_simps loop_simps
        event_loop_scan.simps replicate_4)

lemma oneshot_second:
  "fst (scm_primitive_event_loop oneshot_env (2, 3) 16 99 0
         (snd (scm_primitive_event_loop oneshot_env (2, 3) 16 99 0 oneshot_state))) = Inr 0"
  by (simp add: oneshot_state_def oneshot_env_def EV_READ_def eval_simps loop_simps
        event_loop_scan.simps replicate_4)


lemma dispatch_single:
  assumes "libevent_events t x = Some e"
  shows "dispatch [(x, what)] b t =
     (if ev_pending e \<and> ev_base e = b then
        (case run_callback (ev_callback e) (ev_fd e) what (ev_arg e)
                (if ev_persistent e then t else set_pending x False t) of
           (Inl err, s1) \<Rightarrow> (Inl err, s1)
         | (Inr u, s1) \<Rightarrow> (Inr (), s1))
      else (Inr (), t))"
  using assms by (auto split: prod.splits sum.splits)

text \<open>
  What the code registers. \<open>primitive-add-event\<close> on a valid handle, when libevent makes
  and adds the event, registers an event that carries the descriptor and exactly the mask
  of the caller, with \<open>cb_func\<close> as its callback and the shared \<open>wait_data\<close> as its
  argument, and makes it pending. The event is persistent exactly when the mask has the
  \<open>EV_PERSIST\<close> bit. When it fires, the pass of the loop runs \<open>cb_func\<close> on that
  \<open>wait_data\<close>. \<open>primitive-remove-event\<close> on it makes it non-pending, after which a pass
  of the loop no longer runs its callback; or, when libevent refuses, raises
  "failed to delete event" and changes nothing.
\<close>

lemma registration_follows_mask:
  assumes lv: "libevts s (fst lst) = Some l"
      and A: "A = scm_primitive_add_event True True lst c_fd c_ev s"
      and ev: "ev = Suc (brk s)"
      and e: "e = \<lparr>ev_base = libevt_base l, ev_fd = c_fd, ev_events = c_ev,
                   ev_callback = Cb_func, ev_arg = snd lst, ev_pending = True\<rparr>"
  shows "fst A = Inr ev \<and> libevent_events (snd A) ev = Some e
       \<and> (ev_persistent e \<longleftrightarrow> (c_ev div EV_PERSIST) mod 2 = 1)
       \<and> dispatch [(ev, what)] (libevt_base l) (snd A) =
           (case cb_func c_fd what (snd lst)
                   (if ev_persistent e then snd A else set_pending ev False (snd A)) of
              (Inl err, s1) \<Rightarrow> (Inl err, s1)
            | (Inr u, s1) \<Rightarrow> (Inr (), s1))
       \<and> scm_primitive_remove_event True lst ev (snd A) = (Inr (), set_pending ev False (snd A))
       \<and> libevent_events (set_pending ev False (snd A)) ev = Some (e\<lparr>ev_pending := False\<rparr>)
       \<and> dispatch [(ev, what)] b (set_pending ev False (snd A))
           = (Inr (), set_pending ev False (snd A))
       \<and> scm_primitive_remove_event False lst ev (snd A)
           = (Inl (Misc_error ''primitive-remove-event'' ''failed to delete event'' []), snd A)"
proof -
  have c1: "fst A = Inr ev"
    using lv by (simp add: A ev scm_primitive_add_event_def event_new_def event_add_def
                  alloc_def NULL_def)
  have c2: "libevent_events (snd A) ev = Some e"
    using lv by (simp add: A ev e scm_primitive_add_event_def event_new_def event_add_def
                  alloc_def NULL_def set_pending_def)
  have c3: "ev_persistent e \<longleftrightarrow> (c_ev div EV_PERSIST) mod 2 = 1"
    by (simp add: e ev_persistent_def)
  have c4: "dispatch [(ev, what)] (libevt_base l) (snd A) =
           (case cb_func c_fd what (snd lst)
                   (if ev_persistent e then snd A else set_pending ev False (snd A)) of
              (Inl err, s1) \<Rightarrow> (Inl err, s1)
            | (Inr u, s1) \<Rightarrow> (Inr (), s1))"
    using dispatch_single[OF c2, of what "libevt_base l"] by (simp add: e)
  have c5: "scm_primitive_remove_event True lst ev (snd A)
              = (Inr (), set_pending ev False (snd A))"
    by (simp add: scm_primitive_remove_event_def event_del_def)
  have c6: "libevent_events (set_pending ev False (snd A)) ev = Some (e\<lparr>ev_pending := False\<rparr>)"
    using c2 by (simp add: set_pending_def)
  have c7: "dispatch [(ev, what)] b (set_pending ev False (snd A))
           = (Inr (), set_pending ev False (snd A))"
    using dispatch_single[OF c6, of what b] by simp
  have c8: "scm_primitive_remove_event False lst ev (snd A)
           = (Inl (Misc_error ''primitive-remove-event'' ''failed to delete event'' []), snd A)"
    by (simp add: scm_primitive_remove_event_def event_del_def)
  from c1 c2 c3 c4 c5 c6 c7 c8 show ?thesis by blast
qed

lemma collector_handle: "libevts (collector_state cap) 2 = Some \<lparr>libevt_base = 1\<rparr>"
  by (simp add: collector_simps)

lemma collector_brk: "brk (collector_state cap) = 3"
  by (simp add: collector_simps)

lemma registration_follows_mask_example:
  "fst (scm_primitive_add_event True True (2, 3) 15 18 (collector_state 4)) = Inr 4
   \<and> libevent_events (snd (scm_primitive_add_event True True (2, 3) 15 18 (collector_state 4))) 4
       = Some \<lparr>ev_base = 1, ev_fd = 15, ev_events = 18, ev_callback = Cb_func, ev_arg = 3,
               ev_pending = True\<rparr>
   \<and> ev_persistent \<lparr>ev_base = 1, ev_fd = 15, ev_events = 18, ev_callback = Cb_func,
                     ev_arg = 3, ev_pending = True\<rparr>"
  using registration_follows_mask [where s = "collector_state 4" and lst = "(2, 3)"
          and l = "\<lparr>libevt_base = 1\<rparr>" and c_fd = 15 and c_ev = 18 and ev = 4
          and A = "scm_primitive_add_event True True (2, 3) 15 18 (collector_state 4)"
          and e = "\<lparr>ev_base = 1, ev_fd = 15, ev_events = 18, ev_callback = Cb_func,
                     ev_arg = 3, ev_pending = True\<rparr>"]
        collector_handle [of 4] collector_brk [of 4]
  by (simp add: EV_PERSIST_def)

text \<open>
  C3. The registration that \<open>primitive-add-event\<close> creates is meant to be persistent:
  the comment at its call of \<open>event_add\<close> says "We are adding a persistent event". The
  code does not see to it: it hands the mask of the caller to \<open>event_new\<close> as it is. A
  watch added with the mask \<open>EV_READ\<close> alone is registered and is not persistent: the
  first iteration in which it fires reports it, and the next one, with the same event
  reported by the multiplexer, reports nothing.
\<close>

theorem read_watch_fires_once:
  "fst (scm_primitive_add_event True True (2, 3) 15 EV_READ (collector_state 4)) = Inr 4
   \<and> \<not> ev_persistent (the (libevent_events oneshot_state 4))
   \<and> fst (scm_primitive_event_loop oneshot_env (2, 3) 16 99 0 oneshot_state) = Inr 1
   \<and> fst (scm_primitive_event_loop oneshot_env (2, 3) 16 99 0
         (snd (scm_primitive_event_loop oneshot_env (2, 3) 16 99 0 oneshot_state))) = Inr 0"
proof -
  have "fst (scm_primitive_add_event True True (2, 3) 15 EV_READ (collector_state 4)) = Inr 4"
    by (simp add: eval_simps)
  moreover have "\<not> ev_persistent (the (libevent_events oneshot_state 4))"
    by (simp add: oneshot_state_def EV_READ_def eval_simps)
  ultimately show ?thesis using oneshot_first oneshot_second by simp
qed

subsection \<open>Buffers that no collector points to\<close>

lemma emit_unref:
  "bytevectors (emit a s) = bytevectors s \<and> wait_datas (emit a s) = wait_datas s
   \<and> libevts (emit a s) = libevts s \<and> libevent_events (emit a s) = libevent_events s"
  by (simp add: emit_def)

lemma unref_cong:
  "wait_datas s' = wait_datas s \<Longrightarrow> buffer_unreferenced p s' = buffer_unreferenced p s"
  by (simp add: buffer_unreferenced_def)

lemma cb_func_unref:
  assumes "buffer_unreferenced p s"
  shows "bytevectors (snd (cb_func c_fd what arg s)) p = bytevectors s p
       \<and> buffer_unreferenced p (snd (cb_func c_fd what arg s))"
proof (cases "wait_datas s arg")
  case None
  then show ?thesis using assms by (simp add: cb_func_def)
next
  case (Some d)
  have ne: "events d \<noteq> p" using assms Some by (simp add: buffer_unreferenced_def)
  show ?thesis
    using assms ne
    by (auto simp: cb_func_full[OF Some] buffer_unreferenced_def split: option.splits)
qed

lemma run_callback_unref:
  assumes "buffer_unreferenced p s"
  shows "bytevectors (snd (run_callback cb c_fd what arg s)) p = bytevectors s p
       \<and> buffer_unreferenced p (snd (run_callback cb c_fd what arg s))"
  using assms by (cases cb) (simp_all add: cb_func_unref)

lemma dispatch_unref:
  assumes "buffer_unreferenced p s"
  shows "bytevectors (snd (dispatch fs b s)) p = bytevectors s p
       \<and> buffer_unreferenced p (snd (dispatch fs b s))"
  using assms
proof (induction fs arbitrary: s)
  case Nil
  then show ?case by simp
next
  case (Cons f fs)
  obtain x what where f: "f = (x, what)" by (cases f)
  show ?case
  proof (cases "libevent_events s x")
    case None
    then show ?thesis using Cons f by simp
  next
    case (Some e)
    show ?thesis
    proof (cases "ev_pending e \<and> ev_base e = b")
      case False
      then show ?thesis using Cons f Some by auto
    next
      case True
      let ?s1 = "if ev_persistent e then s else set_pending x False s"
      have u1: "buffer_unreferenced p ?s1" "bytevectors ?s1 p = bytevectors s p"
        using Cons.prems set_pending_frame[of x False s]
        by (simp_all add: buffer_unreferenced_def)
      obtain r s2 where rc: "run_callback (ev_callback e) (ev_fd e) what (ev_arg e) ?s1 = (r, s2)"
        by (cases "run_callback (ev_callback e) (ev_fd e) what (ev_arg e) ?s1")
      have u2: "bytevectors s2 p = bytevectors s p" "buffer_unreferenced p s2"
        using run_callback_unref[OF u1(1), of "ev_callback e" "ev_fd e" what "ev_arg e"] rc u1(2)
        by simp_all
      show ?thesis
      proof (cases r)
        case (Inl err)
        then show ?thesis using f Some True rc u2 by simp
      next
        case (Inr u)
        then show ?thesis using f Some True rc u2 Cons.IH[OF u2(2)] by simp
      qed
    qed
  qed
qed

lemma run_event_loop_unref:
  assumes "buffer_unreferenced p s"
  shows "bytevectors (snd (run_event_loop env ld s)) p = bytevectors s p
       \<and> buffer_unreferenced p (snd (run_event_loop env ld s))"
proof -
  let ?tv = "loop_timeval s (timeout ld)"
  let ?s1 = "if timeout ld \<ge> 0 then emit (Event_base_loopexit (base ld) ?tv) s else s"
  let ?s2 = "emit (Event_base_loop_once (base ld)) ?s1"
  have u2: "buffer_unreferenced p ?s2" "bytevectors ?s2 p = bytevectors s p"
    using assms by (simp_all add: buffer_unreferenced_def emit_def)
  obtain r s3 where dp: "dispatch (fired env) (base ld) ?s2 = (r, s3)"
    by (cases "dispatch (fired env) (base ld) ?s2")
  have u3: "bytevectors s3 p = bytevectors s p" "buffer_unreferenced p s3"
    using dispatch_unref[OF u2(1), of "fired env" "base ld"] dp u2(2) by simp_all
  show ?thesis
  proof (cases "timeout ld \<ge> 0 \<and> \<not> loopexit_ok env")
    case True
    then show ?thesis
      using assms
      by (simp add: run_event_loop_def event_base_loopexit_def emit_def buffer_unreferenced_def)
  next
    case False
    then show ?thesis
      using dp u3
      by (cases r)
         (auto simp: run_event_loop_def event_base_loopexit_def event_base_loop_def
                     loop_timeval_def split: if_splits)
  qed
qed

lemma event_loop_wait_unref:
  assumes "buffer_unreferenced p s"
  shows "bytevectors (snd (event_loop_wait env lst t s)) p = bytevectors s p
       \<and> buffer_unreferenced p (snd (event_loop_wait env lst t s))"
proof (cases "libevts s (fst lst)")
  case None
  then show ?thesis using assms by (simp add: event_loop_wait_def)
next
  case (Some l)
  let ?ld = "\<lparr>base = libevt_base l, timeout = t\<rparr>"
  let ?s1 = "if t \<noteq> 0 then emit Leave_guile s else s"
  have u1: "buffer_unreferenced p ?s1" "bytevectors ?s1 p = bytevectors s p"
    using assms by (simp_all add: buffer_unreferenced_def emit_def)
  obtain r s2 where run: "run_event_loop env ?ld ?s1 = (r, s2)"
    by (cases "run_event_loop env ?ld ?s1")
  have u2: "bytevectors s2 p = bytevectors s p" "buffer_unreferenced p s2"
    using run_event_loop_unref[OF u1(1), of env ?ld] run u1(2) by simp_all
  show ?thesis
    using Some run u2
    by (cases r)
       (auto simp: event_loop_wait_def scm_without_guile_def scm_c_wait_finished_def emit_def
                   buffer_unreferenced_def split: if_splits)
qed

lemma scan_unref:
  assumes "buffer_unreferenced p s"
  shows "bytevectors (snd (event_loop_scan errs dp w i s)) p = bytevectors s p
       \<and> buffer_unreferenced p (snd (event_loop_scan errs dp w i s))"
  using assms
proof (induction errs dp w i s rule: event_loop_scan.induct)
  case (1 errs dp w i s)
  note un = "1.prems"
  show ?case
  proof (cases "wait_datas s dp")
    case None
    then have "snd (event_loop_scan errs dp w i s) = s"
      by (subst event_loop_scan.simps) simp
    then show ?thesis using un by simp
  next
    case (Some d)
    have ne: "events d \<noteq> p" using un Some by (simp add: buffer_unreferenced_def)
    show ?thesis
    proof (cases "i < rv d")
      case False
      then have "snd (event_loop_scan errs dp w i s) = s"
        using Some by (subst event_loop_scan.simps) simp
      then show ?thesis using un by simp
    next
      case True
      show ?thesis
      proof (cases "read_event_data (events d) i s")
        case None
        then have "snd (event_loop_scan errs dp w i s) = s"
          using Some True by (subst event_loop_scan.simps) simp
        then show ?thesis using un by simp
      next
        case rd: (Some r)
        show ?thesis
        proof (cases "fd r = w")
          case False
          have "event_loop_scan errs dp w i s = event_loop_scan errs dp w (i + 1) s"
            using Some True rd False by (subst event_loop_scan.simps) simp
          then show ?thesis using "1.IH"[OF Some True rd False un] by simp
        next
          case w: True
          let ?s0 = "s\<lparr>wait_datas := (wait_datas s)(dp \<mapsto> d\<lparr>rv := rv d - 1\<rparr>)\<rparr>"
          show ?thesis
          proof (cases "memmove_event_data (events d) i (i + 1) (rv d - 1 - i) ?s0")
            case None
            then have "snd (event_loop_scan errs dp w i s) = s"
              using Some True rd w by (subst event_loop_scan.simps) simp
            then show ?thesis using un by simp
          next
            case mm: (Some s1)
            have b1: "bytevectors s1 p = bytevectors s p"
              using mm ne
              by (auto simp: memmove_event_data_def split: option.splits if_splits)
            have w1: "wait_datas s1 = (wait_datas s)(dp \<mapsto> d\<lparr>rv := rv d - 1\<rparr>)"
              using mm by (auto simp: memmove_event_data_def split: option.splits if_splits)
            have u1: "buffer_unreferenced p s1"
              using un ne w1 by (simp add: buffer_unreferenced_def)
            have eq: "snd (event_loop_scan errs dp w i s) = drain errs w s1"
              using Some True rd w mm by (subst event_loop_scan.simps) simp
            have fr: "wait_datas (drain errs w s1) = wait_datas s1"
                     "bytevectors (drain errs w s1) = bytevectors s1"
              using drain_frame[of errs w s1] by simp_all
            show ?thesis
              using eq fr b1 u1 by (simp add: buffer_unreferenced_def)
          qed
        qed
      qed
    qed
  qed
qed

lemma event_loop_result_unref:
  assumes "buffer_unreferenced p s"
  shows "bytevectors (snd (event_loop_result dp s)) p = bytevectors s p
       \<and> buffer_unreferenced p (snd (event_loop_result dp s))"
  using assms by (auto simp: event_loop_result_def buffer_unreferenced_def split: option.splits)

lemma event_loop_unref:
  assumes un: "buffer_unreferenced p s"
  shows "bytevectors (snd (scm_primitive_event_loop env lst c_wakefd c_wokefd t s)) p
           = bytevectors s p"
proof (cases "snd lst = NULL")
  case True
  then show ?thesis by (simp add: scm_primitive_event_loop_def)
next
  case nn: False
  show ?thesis
  proof (cases "t \<noteq> 0 \<and> prepare_ret env \<noteq> 0")
    case True
    then show ?thesis
      using nn
      by (simp add: scm_primitive_event_loop_def scm_c_prepare_to_wait_on_fd_def emit_def
                    event_loop_result_def split: option.splits)
  next
    case False
    then have ni: "t = 0 \<or> prepare_ret env = 0" by auto
    let ?s1 = "if t \<noteq> 0 then emit (Prepare_to_wait_on_fd c_wakefd) s else s"
    have u1: "buffer_unreferenced p ?s1" "bytevectors ?s1 p = bytevectors s p"
      using un by (simp_all add: buffer_unreferenced_def emit_def)
    obtain r2 s2 where wt: "event_loop_wait env lst t ?s1 = (r2, s2)"
      by (cases "event_loop_wait env lst t ?s1")
    have u2: "bytevectors s2 p = bytevectors s p" "buffer_unreferenced p s2"
      using event_loop_wait_unref[OF u1(1), of env lst t] wt u1(2) by simp_all
    obtain r3 s3 where sc: "event_loop_scan (read_errs env) (snd lst) c_wokefd 0 s2 = (r3, s3)"
      by (cases "event_loop_scan (read_errs env) (snd lst) c_wokefd 0 s2")
    have u3: "bytevectors s3 p = bytevectors s p" "buffer_unreferenced p s3"
      using scan_unref[OF u2(2), of "read_errs env" "snd lst" c_wokefd 0] sc u2(1) by simp_all
    have u4: "bytevectors (snd (event_loop_result (snd lst) s3)) p = bytevectors s p"
      using event_loop_result_unref[OF u3(2)] u3(1) by simp
    show ?thesis
      unfolding event_loop_not_interrupted[OF nn ni]
      using wt sc u2 u3 u4 by (cases r2; cases r3) simp_all
  qed
qed

subsection \<open>Resizing the buffer\<close>

lemma bytevector_capacity:
  "SCM_BYTEVECTOR_LENGTH b div sizeof_event_data = length (bv_records b)"
  by (simp add: SCM_BYTEVECTOR_LENGTH_def sizeof_event_data_def)

text \<open>
  The capacity fits the \<open>int\<close> field up to \<open>2 ^ 31 - 1\<close> records; at \<open>2 ^ 31\<close>
  records the field holds a negative number.
\<close>

lemma size_t_to_int_narrows: "size_t_to_int (2 ^ 31) = - (2 ^ 31)"
  by (simp add: size_t_to_int_def)

text \<open>
  C7. Take a bytevector whose capacity, the byte length divided by the record size (which
  is the number of records it has room for), is below \<open>2 ^ 31\<close>, so that it fits the
  \<open>int\<close> field \<open>maxevents\<close>. \<open>primitive-resize\<close> with it stores its address and that
  capacity in the \<open>wait_data\<close>, and leaves the count. From then on \<open>cb_func\<close> on that
  \<open>wait_data\<close> raises "max events fired" exactly when the count has reached the new
  capacity and otherwise writes its record into the new bytevector; and a run-iteration
  leaves the old buffer as it was, provided no \<open>wait_data\<close> points to it any more.
\<close>

theorem resize_takes_effect:
  assumes wd: "wait_datas s (snd lst) = Some d"
      and nb: "bytevectors s eventsv = Some nb"
      and s': "s' = snd (scm_primitive_resize lst eventsv s)"
      and cap: "cap = SCM_BYTEVECTOR_LENGTH nb div sizeof_event_data"
      and fits: "int cap < 2 ^ 31"
      and r0: "0 \<le> rv d"
  shows "scm_primitive_resize lst eventsv s = (Inr (), s')
       \<and> wait_datas s' (snd lst) = Some (d\<lparr>events := eventsv, maxevents := int cap\<rparr>)
       \<and> cap = length (bv_records nb)
       \<and> (int cap \<le> rv d \<longrightarrow>
            cb_func c_fd what (snd lst) s' =
              (Inl (Misc_error ''primitive-event-loop'' ''max events fired on fd(~A)'' [c_fd]),
               s'))
       \<and> (rv d < int cap \<longrightarrow>
            cb_func c_fd what (snd lst) s' =
              (Inr (),
               s'\<lparr>bytevectors := (bytevectors s')(eventsv \<mapsto>
                     nb\<lparr>bv_records := (bv_records nb)[nat (rv d) := \<lparr>fd = c_fd, event = what\<rparr>]\<rparr>),
                  wait_datas := (wait_datas s')(snd lst \<mapsto>
                     d\<lparr>events := eventsv, maxevents := int cap, rv := rv d + 1\<rparr>)\<rparr>))
       \<and> (buffer_unreferenced (events d) s' \<longrightarrow>
            bytevectors (snd (scm_primitive_event_loop env lst c_wakefd c_wokefd c_timeout s'))
              (events d) = bytevectors s (events d))"
proof -
  have rs: "scm_primitive_resize lst eventsv s =
      (Inr (), s\<lparr>wait_datas := (wait_datas s)(snd lst \<mapsto>
                     d\<lparr>events := eventsv, maxevents := int cap\<rparr>)\<rparr>)"
    using wd nb fits by (simp add: scm_primitive_resize_def cap size_t_to_int_fits)
  then have sv: "s' = s\<lparr>wait_datas := (wait_datas s)(snd lst \<mapsto>
                     d\<lparr>events := eventsv, maxevents := int cap\<rparr>)\<rparr>"
    using s' by simp
  have c1: "scm_primitive_resize lst eventsv s = (Inr (), s')" using rs sv by simp
  have c2: "wait_datas s' (snd lst) = Some (d\<lparr>events := eventsv, maxevents := int cap\<rparr>)"
    using sv by simp
  have c3: "cap = length (bv_records nb)" using cap by (simp add: bytevector_capacity)
  have bs: "bytevectors s' = bytevectors s" using sv by simp
  have c4: "int cap \<le> rv d \<longrightarrow>
            cb_func c_fd what (snd lst) s' =
              (Inl (Misc_error ''primitive-event-loop'' ''max events fired on fd(~A)'' [c_fd]),
               s')"
    by (simp add: cb_func_full[OF c2])
  have c5: "rv d < int cap \<longrightarrow>
            cb_func c_fd what (snd lst) s' =
              (Inr (),
               s'\<lparr>bytevectors := (bytevectors s')(eventsv \<mapsto>
                     nb\<lparr>bv_records := (bv_records nb)[nat (rv d) := \<lparr>fd = c_fd, event = what\<rparr>]\<rparr>),
                  wait_datas := (wait_datas s')(snd lst \<mapsto>
                     d\<lparr>events := eventsv, maxevents := int cap, rv := rv d + 1\<rparr>)\<rparr>)"
    using nb bs r0 c3 by (simp add: cb_func_full[OF c2] nat_less_iff)
  have c6: "buffer_unreferenced (events d) s' \<longrightarrow>
            bytevectors (snd (scm_primitive_event_loop env lst c_wakefd c_wokefd c_timeout s'))
              (events d) = bytevectors s (events d)"
    using event_loop_unref[of "events d" s' env lst c_wakefd c_wokefd c_timeout] bs by simp
  from c1 c2 c3 c4 c5 c6 show ?thesis by blast
qed

lemma small_data: "wait_datas small_state 3 = Some \<lparr>rv = 0, events = 100, maxevents = 1\<rparr>"
  by (simp add: small_state_def eval_simps)

lemma small_new_buffer:
  "bytevectors small_state 200 =
     Some \<lparr>bv_records = [\<lparr>fd = 0, event = 0\<rparr>, \<lparr>fd = 0, event = 0\<rparr>, \<lparr>fd = 0, event = 0\<rparr>],
           bv_tail = 0\<rparr>"
  by (simp add: small_state_def eval_simps)

lemma small_old_buffer:
  "bytevectors small_state 100 = Some \<lparr>bv_records = [\<lparr>fd = 0, event = 0\<rparr>], bv_tail = 0\<rparr>"
  by (simp add: small_state_def eval_simps)

lemma resized_unreferenced: "buffer_unreferenced 100 resized_state"
  by (simp add: buffer_unreferenced_def resized_state_def scm_primitive_resize_def
        small_state_def eval_simps)

lemma resized_collects:
  "fst (scm_primitive_event_loop both_env (2, 3) 16 99 0 resized_state) = Inr 2
   \<and> bytevectors (snd (scm_primitive_event_loop both_env (2, 3) 16 99 0 resized_state)) 200
       = Some \<lparr>bv_records = [\<lparr>fd = 17, event = 2\<rparr>, \<lparr>fd = 19, event = 2\<rparr>, \<lparr>fd = 0, event = 0\<rparr>],
               bv_tail = 0\<rparr>"
  by (simp add: resized_state_def scm_primitive_resize_def small_state_def both_env_def
        eval_simps loop_simps event_loop_scan.simps)

lemma small_overflows:
  "fst (scm_primitive_event_loop both_env (2, 3) 16 99 0 small_state)
     = Inl (Misc_error ''primitive-event-loop'' ''max events fired on fd(~A)'' [19])"
  by (simp add: small_state_def both_env_def eval_simps loop_simps event_loop_scan.simps)

theorem resize_takes_effect_witness:
  "bytevectors (snd (scm_primitive_event_loop both_env (2, 3) 16 99 0 resized_state)) 100
     = Some \<lparr>bv_records = [\<lparr>fd = 0, event = 0\<rparr>], bv_tail = 0\<rparr>
   \<and> wait_datas resized_state 3 = Some \<lparr>rv = 0, events = 200, maxevents = 3\<rparr>
   \<and> fst (scm_primitive_event_loop both_env (2, 3) 16 99 0 resized_state) = Inr 2"
proof -
  have h1: "wait_datas small_state (snd (2::nat, 3::nat))
              = Some \<lparr>rv = 0, events = 100, maxevents = 1\<rparr>"
    using small_data by simp
  have h3: "resized_state = snd (scm_primitive_resize (2, 3) 200 small_state)"
    by (simp add: resized_state_def)
  have h4: "(3::nat) = SCM_BYTEVECTOR_LENGTH
               \<lparr>bv_records = [\<lparr>fd = 0, event = 0\<rparr>, \<lparr>fd = 0, event = 0\<rparr>, \<lparr>fd = 0, event = 0\<rparr>],
                bv_tail = 0\<rparr> div sizeof_event_data"
    by (simp add: bytevector_capacity)
  have h5: "0 \<le> rv \<lparr>rv = 0, events = 100, maxevents = 1\<rparr>" by simp
  have h6: "int (3::nat) < 2 ^ 31" by simp
  note t = resize_takes_effect [OF h1 small_new_buffer h3 h4 h6 h5,
             where env = both_env and c_wakefd = 16 and c_wokefd = 99 and c_timeout = 0]
  have "bytevectors (snd (scm_primitive_event_loop both_env (2, 3) 16 99 0 resized_state)) 100
     = Some \<lparr>bv_records = [\<lparr>fd = 0, event = 0\<rparr>], bv_tail = 0\<rparr>"
    using t resized_unreferenced small_old_buffer by simp
  moreover have "wait_datas resized_state 3 = Some \<lparr>rv = 0, events = 200, maxevents = 3\<rparr>"
    using t by simp
  ultimately show ?thesis using resized_collects by simp
qed

subsection \<open>The cursor\<close>

lemma cb_func_returns:
  assumes "cb_func c_fd what a s = (Inr u, s2)"
  shows "\<exists>da. wait_datas s a = Some da
            \<and> wait_datas s2 = (wait_datas s)(a \<mapsto> da\<lparr>rv := rv da + 1\<rparr>)
            \<and> libevent_events s2 = libevent_events s"
  using assms
  by (auto simp: cb_func_def memcpy_event_data_def split: option.splits if_splits)

lemma run_callback_rv:
  assumes rc: "run_callback cb c_fd what a s = (Inr u, s2)"
      and wd: "wait_datas s dp = Some d"
  shows "libevent_events s2 = libevent_events s
       \<and> (\<exists>d'. wait_datas s2 dp = Some d'
              \<and> rv d' = rv d + (if cb = Cb_func \<and> a = dp then 1 else 0))"
proof (cases cb)
  case (Cb_other k)
  then show ?thesis using rc wd by simp
next
  case Cb_func
  then have "cb_func c_fd what a s = (Inr u, s2)" using rc by simp
  from cb_func_returns[OF this] obtain da where
    da: "wait_datas s a = Some da" "wait_datas s2 = (wait_datas s)(a \<mapsto> da\<lparr>rv := rv da + 1\<rparr>)"
        "libevent_events s2 = libevent_events s"
    by blast
  show ?thesis using da wd Cb_func by (cases "a = dp") simp_all
qed

lemma dispatch_rv:
  assumes "dispatch fs b s = (Inr u, s')" and "wait_datas s dp = Some d"
  shows "\<exists>d'. wait_datas s' dp = Some d'
            \<and> rv d' = rv d + int (deposits fs b dp (libevent_events s))"
  using assms
proof (induction fs arbitrary: s d)
  case Nil
  then show ?case by simp
next
  case (Cons f fs)
  obtain x what where f: "f = (x, what)" by (cases f)
  show ?case
  proof (cases "libevent_events s x")
    case None
    then show ?thesis using Cons f by simp
  next
    case (Some e)
    show ?thesis
    proof (cases "ev_pending e \<and> ev_base e = b")
      case False
      then show ?thesis using Cons.IH[of s d] Cons.prems f Some by auto
    next
      case True
      let ?s1 = "if ev_persistent e then s else set_pending x False s"
      let ?evs1 = "if ev_persistent e then libevent_events s
                   else (libevent_events s)(x \<mapsto> e\<lparr>ev_pending := False\<rparr>)"
      have e1: "libevent_events ?s1 = ?evs1" using Some by (simp add: set_pending_def)
      have w1: "wait_datas ?s1 dp = Some d"
        using Cons.prems(2) set_pending_frame[of x False s] by simp
      obtain r s2 where rc: "run_callback (ev_callback e) (ev_fd e) what (ev_arg e) ?s1 = (r, s2)"
        by (cases "run_callback (ev_callback e) (ev_fd e) what (ev_arg e) ?s1")
      have step: "dispatch (f # fs) b s =
                    (case r of Inl err \<Rightarrow> (Inl err, s2) | Inr v \<Rightarrow> dispatch fs b s2)"
        using f Some True rc by (simp split: sum.splits)
      show ?thesis
      proof (cases r)
        case (Inl err)
        then show ?thesis using step Cons.prems(1) by simp
      next
        case (Inr v)
        then have d2: "dispatch fs b s2 = (Inr u, s')" using step Cons.prems(1) by simp
        from run_callback_rv[OF rc[unfolded Inr] w1] obtain d2v where
          ev2: "libevent_events s2 = libevent_events ?s1"
          and w2: "wait_datas s2 dp = Some d2v"
          and r2: "rv d2v = rv d + (if ev_callback e = Cb_func \<and> ev_arg e = dp then 1 else 0)"
          by blast
        from Cons.IH[OF d2 w2] obtain d' where
          d': "wait_datas s' dp = Some d'"
              "rv d' = rv d2v + int (deposits fs b dp (libevent_events s2))"
          by blast
        have "deposits (f # fs) b dp (libevent_events s) =
                (if ev_callback e = Cb_func \<and> ev_arg e = dp then 1 else 0)
                + deposits fs b dp ?evs1"
          using f Some True by simp
        then have "rv d' = rv d + int (deposits (f # fs) b dp (libevent_events s))"
          using d'(2) r2 ev2 e1 by simp
        then show ?thesis using d'(1) by blast
      qed
    qed
  qed
qed

lemma deposits_le: "deposits fs b dp evs \<le> length fs"
proof (induction fs arbitrary: evs)
  case Nil
  show ?case by simp
next
  case (Cons f fs)
  obtain x what where f: "f = (x, what)" by (cases f)
  show ?case
  proof (cases "evs x")
    case None
    then show ?thesis using Cons[of evs] f by simp
  next
    case (Some e)
    have a: "deposits fs b dp evs \<le> length fs" by (rule Cons)
    have c: "deposits fs b dp (if ev_persistent e then evs
               else evs(x \<mapsto> e\<lparr>ev_pending := False\<rparr>)) \<le> length fs"
      by (rule Cons)
    show ?thesis using f Some a c by auto
  qed
qed

lemma run_event_loop_rv:
  assumes run: "run_event_loop env ld s = (Inr u, s')" and wd: "wait_datas s dp = Some d"
  shows "\<exists>d'. wait_datas s' dp = Some d'
            \<and> rv d' = rv d + int (deposits (fired env) (base ld) dp (libevent_events s))"
proof -
  let ?s1 = "if timeout ld \<ge> 0
             then emit (Event_base_loopexit (base ld) (loop_timeval s (timeout ld))) s else s"
  let ?s2 = "emit (Event_base_loop_once (base ld)) ?s1"
  have ok: "\<not> (timeout ld \<ge> 0 \<and> \<not> loopexit_ok env)"
  proof
    assume a: "timeout ld \<ge> 0 \<and> \<not> loopexit_ok env"
    then have "fst (run_event_loop env ld s)
                 = Inl (Misc_error ''primitive-event-loop'' ''event loop exit failed'' [])"
      by (simp add: run_event_loop_def event_base_loopexit_def)
    then show False using run by simp
  qed
  have w2: "wait_datas ?s2 dp = Some d" using wd by (simp add: emit_def)
  have e2: "libevent_events ?s2 = libevent_events s" by (simp add: emit_def)
  obtain r s3 where dp: "dispatch (fired env) (base ld) ?s2 = (r, s3)"
    by (cases "dispatch (fired env) (base ld) ?s2")
  have "r = Inr () \<and> s3 = s'"
    using run ok dp
    by (cases r)
       (auto simp: run_event_loop_def event_base_loopexit_def event_base_loop_def
                   loop_timeval_def split: if_splits)
  then have "dispatch (fired env) (base ld) ?s2 = (Inr (), s')" using dp by simp
  from dispatch_rv[OF this w2] show ?thesis using e2 by simp
qed

lemma event_loop_wait_rv:
  assumes wt: "event_loop_wait env lst t s = (Inr u, s')"
      and lv: "libevts s (fst lst) = Some l"
      and wd: "wait_datas s dp = Some d"
  shows "\<exists>d'. wait_datas s' dp = Some d'
            \<and> rv d' = rv d + int (deposits (fired env) (libevt_base l) dp (libevent_events s))"
proof -
  let ?ld = "\<lparr>base = libevt_base l, timeout = t\<rparr>"
  let ?s1 = "if t \<noteq> 0 then emit Leave_guile s else s"
  have w1: "wait_datas ?s1 dp = Some d" using wd by (simp add: emit_def)
  have e1: "libevent_events ?s1 = libevent_events s" by (simp add: emit_def)
  obtain r s2 where run: "run_event_loop env ?ld ?s1 = (r, s2)"
    by (cases "run_event_loop env ?ld ?s1")
  have r: "r = Inr ()"
    using wt lv run by (cases r) (auto simp: event_loop_wait_def scm_without_guile_def
                                      split: if_splits)
  have w': "wait_datas s' = wait_datas s2"
    using wt lv run r
    by (auto simp: event_loop_wait_def scm_without_guile_def scm_c_wait_finished_def emit_def
             split: if_splits)
  from run_event_loop_rv[OF run[unfolded r] w1] show ?thesis using w' e1 by simp
qed

lemma scan_rv:
  assumes "event_loop_scan errs dp w i s = (Inr u, s')" and "wait_datas s dp = Some d"
  shows "\<exists>d'. wait_datas s' dp = Some d' \<and> (rv d' = rv d \<or> rv d' = rv d - 1)"
  using assms
proof (induction errs dp w i s rule: event_loop_scan.induct)
  case (1 errs dp w i s)
  note sc = "1.prems"(1) and wd = "1.prems"(2)
  show ?case
  proof (cases "i < rv d")
    case False
    then have "event_loop_scan errs dp w i s = (Inr (), s)"
      using wd by (subst event_loop_scan.simps) simp
    then show ?thesis using sc wd by simp
  next
    case True
    show ?thesis
    proof (cases "read_event_data (events d) i s")
      case None
      then have "event_loop_scan errs dp w i s = (Inl Undefined_behaviour, s)"
        using wd True by (subst event_loop_scan.simps) simp
      then show ?thesis using sc by simp
    next
      case rd: (Some r)
      show ?thesis
      proof (cases "fd r = w")
        case False
        have "event_loop_scan errs dp w i s = event_loop_scan errs dp w (i + 1) s"
          using wd True rd False by (subst event_loop_scan.simps) simp
        then show ?thesis using "1.IH"[OF wd True rd False _ wd] sc by simp
      next
        case w: True
        let ?s0 = "s\<lparr>wait_datas := (wait_datas s)(dp \<mapsto> d\<lparr>rv := rv d - 1\<rparr>)\<rparr>"
        show ?thesis
        proof (cases "memmove_event_data (events d) i (i + 1) (rv d - 1 - i) ?s0")
          case None
          then have "event_loop_scan errs dp w i s = (Inl Undefined_behaviour, s)"
            using wd True rd w by (subst event_loop_scan.simps) simp
          then show ?thesis using sc by simp
        next
          case mm: (Some s1)
          have w1: "wait_datas s1 = (wait_datas s)(dp \<mapsto> d\<lparr>rv := rv d - 1\<rparr>)"
            using mm by (auto simp: memmove_event_data_def split: option.splits if_splits)
          have "event_loop_scan errs dp w i s = (Inr (), drain errs w s1)"
            using wd True rd w mm by (subst event_loop_scan.simps) simp
          then have "s' = drain errs w s1" using sc by simp
          then have "wait_datas s' dp = Some (d\<lparr>rv := rv d - 1\<rparr>)"
            using drain_frame[of errs w s1] w1 by simp
          then show ?thesis by simp
        qed
      qed
    qed
  qed
qed

lemma event_loop_returns:
  assumes ret: "fst (scm_primitive_event_loop env lst c_wakefd c_wokefd t s) = Inr n"
  shows "snd lst \<noteq> NULL
       \<and> (\<exists>s3. scm_primitive_event_loop env lst c_wakefd c_wokefd t s
                  = event_loop_result (snd lst) s3)
       \<and> (t = 0 \<or> prepare_ret env = 0 \<longrightarrow>
            (\<exists>s2 s3. event_loop_wait env lst t
                        (if t \<noteq> 0 then emit (Prepare_to_wait_on_fd c_wakefd) s else s)
                      = (Inr (), s2)
                  \<and> event_loop_scan (read_errs env) (snd lst) c_wokefd 0 s2 = (Inr (), s3)
                  \<and> scm_primitive_event_loop env lst c_wakefd c_wokefd t s
                      = event_loop_result (snd lst) s3))"
proof -
  have nn: "snd lst \<noteq> NULL"
    using ret by (auto simp: scm_primitive_event_loop_def)
  show ?thesis
  proof (cases "t \<noteq> 0 \<and> prepare_ret env \<noteq> 0")
    case True
    let ?s1 = "emit (Prepare_to_wait_on_fd c_wakefd) s"
    show ?thesis
    proof (cases "wait_datas ?s1 (snd lst)")
      case None
      then show ?thesis
        using ret nn True
        by (simp add: scm_primitive_event_loop_def scm_c_prepare_to_wait_on_fd_def)
    next
      case (Some d)
      then have "scm_primitive_event_loop env lst c_wakefd c_wokefd t s
          = event_loop_result (snd lst)
              (?s1\<lparr>wait_datas := (wait_datas ?s1)(snd lst \<mapsto> d\<lparr>rv := 0\<rparr>)\<rparr>)"
        using nn True
        by (simp add: scm_primitive_event_loop_def scm_c_prepare_to_wait_on_fd_def)
      then show ?thesis using nn True by blast
    qed
  next
    case False
    then have ni: "t = 0 \<or> prepare_ret env = 0" by auto
    let ?s1 = "if t \<noteq> 0 then emit (Prepare_to_wait_on_fd c_wakefd) s else s"
    note top = event_loop_not_interrupted[OF nn ni, of c_wakefd c_wokefd s]
    obtain r2 s2 where wt: "event_loop_wait env lst t ?s1 = (r2, s2)"
      by (cases "event_loop_wait env lst t ?s1")
    obtain r3 s3 where sc: "event_loop_scan (read_errs env) (snd lst) c_wokefd 0 s2 = (r3, s3)"
      by (cases "event_loop_scan (read_errs env) (snd lst) c_wokefd 0 s2")
    have r2: "r2 = Inr ()" using ret top wt by (cases r2) simp_all
    have r3: "r3 = Inr ()" using ret top wt sc r2 by (cases r3) simp_all
    have "scm_primitive_event_loop env lst c_wakefd c_wokefd t s
            = event_loop_result (snd lst) s3"
      using top wt sc r2 r3 by simp
    then show ?thesis using nn wt sc r2 r3 by blast
  qed
qed

lemma create_cursor:
  assumes "bytevectors s0 eventsv = Some bv"
  shows "\<exists>l dp d. scm_primitive_create_event_base True eventsv s0
                     = (Inr (l, dp), snd (scm_primitive_create_event_base True eventsv s0))
              \<and> wait_datas (snd (scm_primitive_create_event_base True eventsv s0)) dp = Some d
              \<and> rv d = 0"
  using assms
  by (simp add: scm_primitive_create_event_base_def event_base_new_def alloc_def
        scm_gc_malloc_def NULL_def)

lemma interrupted_cursor:
  assumes "snd lst \<noteq> NULL" "c_timeout \<noteq> 0" "prepare_ret env \<noteq> 0"
      and "wait_datas s (snd lst) = Some d"
  shows "fst (scm_primitive_event_loop env lst c_wakefd c_wokefd c_timeout s) = Inr 0
       \<and> wait_datas (snd (scm_primitive_event_loop env lst c_wakefd c_wokefd c_timeout s))
            (snd lst) = Some (d\<lparr>rv := 0\<rparr>)"
  using assms
  by (simp add: scm_primitive_event_loop_def scm_c_prepare_to_wait_on_fd_def emit_def
        event_loop_result_def)

text \<open>
  The cursor on the paths that return. The cursor \<open>rv\<close> is zero in the \<open>wait_data\<close>
  that \<open>primitive-create-event-base\<close> makes. A run-iteration with a non-zero timeout
  that finds an interrupt pending sets it to zero and returns zero. Every run-iteration
  that returns leaves it at zero. When the cursor is zero on entry and the wait is
  entered, the returned count is the number of times the loop ran the callback on this
  \<open>wait_data\<close> during this call, less one when the wake record was removed; it is at most
  the number of events that fired.
\<close>

lemma cursor_zero_between_iterations:
  assumes R: "R = scm_primitive_event_loop env lst c_wakefd c_wokefd c_timeout s"
      and C: "C = scm_primitive_create_event_base True eventsv s0"
      and N: "N = deposits (fired env) (libevt_base l) (snd lst) (libevent_events s)"
  shows "(bytevectors s0 eventsv \<noteq> None \<longrightarrow>
            (\<exists>h dp d0. C = (Inr (h, dp), snd C) \<and> wait_datas (snd C) dp = Some d0 \<and> rv d0 = 0))
       \<and> (snd lst \<noteq> NULL \<and> c_timeout \<noteq> 0 \<and> prepare_ret env \<noteq> 0
            \<and> wait_datas s (snd lst) = Some d \<longrightarrow>
            fst R = Inr 0 \<and> wait_datas (snd R) (snd lst) = Some (d\<lparr>rv := 0\<rparr>))
       \<and> (fst R = Inr n \<longrightarrow> (\<exists>d'. wait_datas (snd R) (snd lst) = Some d' \<and> rv d' = 0))
       \<and> (fst R = Inr n \<and> (c_timeout = 0 \<or> prepare_ret env = 0)
            \<and> wait_datas s (snd lst) = Some d \<and> rv d = 0 \<and> libevts s (fst lst) = Some l \<longrightarrow>
            (n = int N \<or> n = int N - 1) \<and> n \<le> int (length (fired env)))"
proof -
  have a: "bytevectors s0 eventsv \<noteq> None \<longrightarrow>
            (\<exists>h dp d0. C = (Inr (h, dp), snd C) \<and> wait_datas (snd C) dp = Some d0 \<and> rv d0 = 0)"
    using create_cursor[of s0 eventsv] C by auto
  have b: "snd lst \<noteq> NULL \<and> c_timeout \<noteq> 0 \<and> prepare_ret env \<noteq> 0
            \<and> wait_datas s (snd lst) = Some d \<longrightarrow>
            fst R = Inr 0 \<and> wait_datas (snd R) (snd lst) = Some (d\<lparr>rv := 0\<rparr>)"
    using interrupted_cursor[of lst c_timeout env s d c_wakefd c_wokefd] R by blast
  have c: "fst R = Inr n \<longrightarrow> (\<exists>d'. wait_datas (snd R) (snd lst) = Some d' \<and> rv d' = 0)"
  proof
    assume ret: "fst R = Inr n"
    from event_loop_returns[OF ret[unfolded R]] obtain s3 where
      "R = event_loop_result (snd lst) s3" using R by auto
    with ret event_loop_result_returns[of "snd lst" s3 n]
    show "\<exists>d'. wait_datas (snd R) (snd lst) = Some d' \<and> rv d' = 0" by auto
  qed
  have d: "fst R = Inr n \<and> (c_timeout = 0 \<or> prepare_ret env = 0)
            \<and> wait_datas s (snd lst) = Some d \<and> rv d = 0 \<and> libevts s (fst lst) = Some l \<longrightarrow>
            (n = int N \<or> n = int N - 1) \<and> n \<le> int (length (fired env))"
  proof
    assume h: "fst R = Inr n \<and> (c_timeout = 0 \<or> prepare_ret env = 0)
            \<and> wait_datas s (snd lst) = Some d \<and> rv d = 0 \<and> libevts s (fst lst) = Some l"
    let ?s1 = "if c_timeout \<noteq> 0 then emit (Prepare_to_wait_on_fd c_wakefd) s else s"
    from h have ret: "fst R = Inr n" and ni: "c_timeout = 0 \<or> prepare_ret env = 0"
      and wd: "wait_datas s (snd lst) = Some d" and z: "rv d = 0"
      and lv: "libevts s (fst lst) = Some l" by simp_all
    from event_loop_returns[OF ret[unfolded R]] ni obtain s2 s3 where
      wt: "event_loop_wait env lst c_timeout ?s1 = (Inr (), s2)"
      and sc: "event_loop_scan (read_errs env) (snd lst) c_wokefd 0 s2 = (Inr (), s3)"
      and res: "R = event_loop_result (snd lst) s3"
      using R by auto
    have w1: "wait_datas ?s1 (snd lst) = Some d" using wd by (simp add: emit_def)
    have l1: "libevts ?s1 (fst lst) = Some l" using lv by (simp add: emit_def)
    have e1: "libevent_events ?s1 = libevent_events s" by (simp add: emit_def)
    from event_loop_wait_rv[OF wt l1 w1] obtain d2 where
      d2: "wait_datas s2 (snd lst) = Some d2" "rv d2 = int N" using z e1 N by auto
    from scan_rv[OF sc d2(1)] obtain d3 where
      d3: "wait_datas s3 (snd lst) = Some d3" "rv d3 = rv d2 \<or> rv d3 = rv d2 - 1" by blast
    from event_loop_result_returns[of "snd lst" s3 n] ret res d3(1)
    have "rv d3 = n" by auto
    then have n: "n = int N \<or> n = int N - 1" using d3(2) d2(2) by auto
    have "N \<le> length (fired env)" unfolding N by (rule deposits_le)
    then show "(n = int N \<or> n = int N - 1) \<and> n \<le> int (length (fired env))"
      using n by auto
  qed
  from a b c d show ?thesis by blast
qed

lemma watch_deposits: "deposits (fired watch_env) 1 3 (libevent_events watch_state) = 3"
  by (simp add: watch_state_def watch_env_def eval_simps)

lemma watch_again:
  "fst (scm_primitive_event_loop watch_env (2, 3) 16 15 0
          (snd (scm_primitive_event_loop watch_env (2, 3) 16 15 0 watch_state))) = Inr 2"
  by (simp add: watch_state_def watch_env_def eval_simps loop_simps event_loop_scan.simps
        drain.simps[of _ 15] sys_read_def replicate_4 list_update_2)


lemma watch_data: "wait_datas watch_state 3 = Some \<lparr>rv = 0, events = 100, maxevents = 4\<rparr>"
  by (simp add: watch_state_def eval_simps)

lemma boot_buffer: "bytevectors (boot_state cap) 100 \<noteq> None"
  by (simp add: boot_state_def init_fibers_libevt_def blank_state_def)

lemma cursor_zero_between_iterations_example:
  "fst (scm_primitive_event_loop watch_env (2, 3) 16 15 0 watch_state) = Inr 2
   \<and> rv (the (wait_datas
         (snd (scm_primitive_event_loop watch_env (2, 3) 16 15 0 watch_state)) 3)) = 0
   \<and> deposits (fired watch_env) 1 3 (libevent_events watch_state) = 3
   \<and> fst (scm_primitive_event_loop watch_env (2, 3) 16 15 0
          (snd (scm_primitive_event_loop watch_env (2, 3) 16 15 0 watch_state))) = Inr 2
   \<and> rv (the (wait_datas (collector_state 4) 3)) = 0"
proof -
  note t = cursor_zero_between_iterations [where env = watch_env and lst = "(2, 3)"
             and c_wakefd = 16 and c_wokefd = 15 and c_timeout = 0 and s = watch_state
             and R = "scm_primitive_event_loop watch_env (2, 3) 16 15 0 watch_state"
             and C = "scm_primitive_create_event_base True 100 (boot_state 4)"
             and eventsv = 100 and ?s0.0 = "boot_state 4" and N = 3
             and l = "\<lparr>libevt_base = 1\<rparr>" and n = 2
             and d = "\<lparr>rv = 0, events = 100, maxevents = 4\<rparr>"]
  have r: "fst (scm_primitive_event_loop watch_env (2, 3) 16 15 0 watch_state) = Inr 2"
    by (rule watch_result)
  have "\<exists>d'. wait_datas (snd (scm_primitive_event_loop watch_env (2, 3) 16 15 0 watch_state))
               (snd (2::nat, 3::nat)) = Some d' \<and> rv d' = 0"
    using t r watch_deposits by simp
  then have z: "rv (the (wait_datas
         (snd (scm_primitive_event_loop watch_env (2, 3) 16 15 0 watch_state)) 3)) = 0"
    by auto
  have c: "rv (the (wait_datas (collector_state 4) 3)) = 0"
    by (simp add: collector_state_data)
  from r z c watch_deposits watch_again show ?thesis by simp
qed


end
